(* ===== verification/Prelude.thy ===== *)
theory Prelude
  imports Main "HOL-Library.Word"
begin

section \<open>Outcomes of C code\<close>

text \<open>
  The proxy is C. A call can return, can run into undefined behaviour, can still be waiting
  for an answer of the operating system, or can loop on. Every model function of the
  development therefore returns a value of \<open>cres\<close>: \<open>Inr\<close> of what the call returned, or
  \<open>Inl\<close> of the reason why it did not. This theory holds that type, its sequencing operation,
  the two postcondition predicates the lemmas are stated with, C pointers and fixed-width
  conversions, and a few list lemmas.
\<close>

datatype ub = Null_deref | Use_after_free | Double_free | Uninit_read | Out_of_bounds

datatype stop = UB ub | Blocked | Out_of_fuel

type_synonym 'a cres = "stop + 'a"

definition seq :: "'a cres \<Rightarrow> ('a \<Rightarrow> 'b cres) \<Rightarrow> 'b cres" where
  "seq m f = (case m of Inl e \<Rightarrow> Inl e | Inr x \<Rightarrow> f x)"

named_theorems ends_intro \<open>postcondition rules for the model's operations\<close>

lemma seq_simps [simp, code]:
  "seq (Inr x) f = f x"
  "seq (Inl e) f = Inl e"
  by (simp_all add: seq_def)

lemma seq_cong [fundef_cong]:
  "m = m' \<Longrightarrow> (\<And>x. m' = Inr x \<Longrightarrow> f x = g x) \<Longrightarrow> seq m f = seq m' g"
  by (cases m') (auto simp: seq_def)

lemma seq_Inr_iff: "seq m f = Inr y \<longleftrightarrow> (\<exists>x. m = Inr x \<and> f x = Inr y)"
  by (cases m) auto

lemma seq_Inl_iff: "seq m f = Inl e \<longleftrightarrow> m = Inl e \<or> (\<exists>x. m = Inr x \<and> f x = Inl e)"
  by (cases m) auto

lemma seq_assoc: "seq (seq m f) g = seq m (\<lambda>x. seq (f x) g)"
  by (cases m) auto

lemma seq_if: "seq (if b then m else m') f = (if b then seq m f else seq m' f)"
  by simp

subsection \<open>Postconditions\<close>

text \<open>
  \<open>ends m Q\<close>: the call runs into no undefined behaviour and no loop without end, and if it
  returns, its result satisfies \<open>Q\<close>. \<open>gives m Q\<close>: if it returns, its result
  satisfies \<open>Q\<close>. Both distribute over \<open>seq\<close>, so that a postcondition of a handler
  is computed by rewriting.
\<close>

definition ends :: "'a cres \<Rightarrow> ('a \<Rightarrow> bool) \<Rightarrow> bool" where
  "ends m Q = (case m of Inr x \<Rightarrow> Q x | Inl e \<Rightarrow> e = Blocked)"

definition gives :: "'a cres \<Rightarrow> ('a \<Rightarrow> bool) \<Rightarrow> bool" where
  "gives m Q = (case m of Inr x \<Rightarrow> Q x | Inl _ \<Rightarrow> True)"

lemma ends_simps [simp]:
  "ends (Inr x) Q = Q x"
  "ends (Inl Blocked) Q = True"
  "ends (Inl (UB u)) Q = False"
  "ends (Inl Out_of_fuel) Q = False"
  by (simp_all add: ends_def)

lemma gives_simps [simp]:
  "gives (Inr x) Q = Q x"
  "gives (Inl e) Q = True"
  by (simp_all add: gives_def)

lemma ends_seq [simp]: "ends (seq m f) Q = ends m (\<lambda>x. ends (f x) Q)"
  by (cases m) (auto simp: ends_def)

lemma gives_seq [simp]: "gives (seq m f) Q = gives m (\<lambda>x. gives (f x) Q)"
  by (cases m) (auto simp: gives_def)

lemma ends_if: "ends (if b then m else m') Q \<longleftrightarrow> (b \<longrightarrow> ends m Q) \<and> (\<not> b \<longrightarrow> ends m' Q)"
  by simp

lemma gives_if: "gives (if b then m else m') Q \<longleftrightarrow> (b \<longrightarrow> gives m Q) \<and> (\<not> b \<longrightarrow> gives m' Q)"
  by simp

lemma ends_mono: "ends m P \<Longrightarrow> (\<And>x. P x \<Longrightarrow> Q x) \<Longrightarrow> ends m Q"
  by (cases m) (auto simp: ends_def)

lemma gives_mono: "gives m P \<Longrightarrow> (\<And>x. P x \<Longrightarrow> Q x) \<Longrightarrow> gives m Q"
  by (cases m) auto

lemma ends_conj: "ends m P \<Longrightarrow> ends m Q \<Longrightarrow> ends m (\<lambda>x. P x \<and> Q x)"
  by (cases m) (auto simp: ends_def)

lemma ends_gives: "ends m Q \<Longrightarrow> gives m Q"
  by (cases m) auto

lemma gives_Inr: "gives m Q \<Longrightarrow> m = Inr x \<Longrightarrow> Q x"
  by simp

lemma ends_Inr: "ends m Q \<Longrightarrow> m = Inr x \<Longrightarrow> Q x"
  by simp

lemma ends_no_ub: "ends m Q \<Longrightarrow> m \<noteq> Inl (UB u)"
  by auto

text \<open>Why a call did not return, as a value to compute with.\<close>

definition stopped :: "'a cres \<Rightarrow> stop option" where
  "stopped m = (case m of Inl e \<Rightarrow> Some e | Inr _ \<Rightarrow> None)"

lemma stopped_eq: "stopped m = Some e \<longleftrightarrow> m = Inl e"
  by (cases m) (auto simp: stopped_def)

subsection \<open>Loops over a list\<close>

text \<open>The loop that runs a step for every item of a list, on a state.\<close>

fun foldc :: "('a \<Rightarrow> 's \<Rightarrow> 's cres) \<Rightarrow> 'a list \<Rightarrow> 's \<Rightarrow> 's cres" where
  "foldc f [] s = Inr s"
| "foldc f (x # xs) s = seq (f x s) (foldc f xs)"

lemma foldc_append: "foldc f (xs @ ys) s = seq (foldc f xs s) (foldc f ys)"
  by (induction xs arbitrary: s) (auto simp: seq_assoc intro!: seq_cong)

lemma foldc_ends:
  assumes "\<And>x s. x \<in> set xs \<Longrightarrow> I s \<Longrightarrow> ends (f x s) I"
  shows "I s \<Longrightarrow> ends (foldc f xs s) I"
  using assms
proof (induction xs arbitrary: s)
  case Nil
  then show ?case by simp
next
  case (Cons x xs)
  have "ends (f x s) I" using Cons.prems by simp
  then show ?case
    using Cons by (auto intro: ends_mono)
qed

subsection \<open>Pointers\<close>

text \<open>
  A pointer is NULL, the address of an object, or the indeterminate value of memory that
  nothing has been stored in (\<open>Wild\<close>). Dereferencing looks the address up in the map of live
  objects of the pointer's type.
\<close>

datatype ptr = Null | Ref nat | Wild

fun deref :: "(nat \<Rightarrow> 'a option) \<Rightarrow> ptr \<Rightarrow> 'a cres" where
  "deref m Null = Inl (UB Null_deref)"
| "deref m Wild = Inl (UB Uninit_read)"
| "deref m (Ref a) = (case m a of None \<Rightarrow> Inl (UB Use_after_free) | Some x \<Rightarrow> Inr x)"

text \<open>The test \<open>p != NULL\<close> of the source reads \<open>p\<close>.\<close>

fun nonnull :: "ptr \<Rightarrow> bool cres" where
  "nonnull Null = Inr False"
| "nonnull (Ref a) = Inr True"
| "nonnull Wild = Inl (UB Uninit_read)"

lemma deref_Inr_iff: "deref m p = Inr x \<longleftrightarrow> (\<exists>a. p = Ref a \<and> m a = Some x)"
  by (cases p) (auto split: option.splits)

lemma ends_deref_Ref [simp]: "m a = Some x \<Longrightarrow> ends (deref m (Ref a)) Q = Q x"
  by simp

subsection \<open>Conversions\<close>

text \<open>The value an integer has after conversion to \<open>int\<close> (32 bits, two's complement).\<close>

definition c_int :: "int \<Rightarrow> int" where
  "c_int x = signed_take_bit 31 x"

lemma c_int_id: "- (2 ^ 31) \<le> x \<Longrightarrow> x < 2 ^ 31 \<Longrightarrow> c_int x = x"
  by (simp add: c_int_def signed_take_bit_int_eq_self)

lemma c_int_small [simp]: "0 \<le> x \<Longrightarrow> x < 2147483648 \<Longrightarrow> c_int x = x"
  by (rule c_int_id) simp_all

subsection \<open>Lists\<close>

lemma take_append_replicate:
  "n \<le> length xs \<Longrightarrow> take n (xs @ ys) = take n xs"
  by simp

lemma distinct_remove_mid:
  "distinct (xs @ y # ys) \<Longrightarrow> remove1 y (xs @ y # ys) = xs @ ys"
  by (simp add: remove1_append)

lemma nth_mid: "length xs = n \<Longrightarrow> (xs @ y # ys) ! n = y"
  by auto

lemma takeWhile_all: "\<forall>x\<in>set xs. P x \<Longrightarrow> takeWhile P xs = xs"
  by (induction xs) auto

lemma takeWhile_append_stop:
  "\<forall>x\<in>set xs. P x \<Longrightarrow> \<not> P y \<Longrightarrow> takeWhile P (xs @ y # ys) = xs"
  by (induction xs) auto

end
