(* ===== verification/CStrings.thy ===== *)
theory CStrings
  imports Prelude
begin

section \<open>The C library's characters and strings\<close>

text \<open>
  The functions of the C library that the proxy calls, on objects: an object is the list of
  the bytes from the pointer to the end of the array it points into. A function that would
  read or write past that end gives \<open>Out_of_bounds\<close>. Also here: decimal numbers as
  \<open>sprintf\<close> prints them, and the numbers-and-dots notation of inet(3).
\<close>

subsection \<open>Characters\<close>

abbreviation NUL :: char where "NUL \<equiv> CHR 0x00"
abbreviation TAB :: char where "TAB \<equiv> CHR 0x09"
abbreviation LF :: char where "LF \<equiv> CHR 0x0A"
abbreviation CR :: char where "CR \<equiv> CHR 0x0D"

definition code :: "char \<Rightarrow> nat" where
  "code c = of_char c"

text \<open>The value of a \<open>char\<close>, which is signed on the platforms the proxy is built for.\<close>

definition schar :: "char \<Rightarrow> int" where
  "schar c = (if code c < 128 then int (code c) else int (code c) - 256)"

definition isdigit :: "char \<Rightarrow> bool" where
  "isdigit c = (48 \<le> code c \<and> code c \<le> 57)"

definition isxdigit :: "char \<Rightarrow> bool" where
  "isxdigit c = (isdigit c \<or> (65 \<le> code c \<and> code c \<le> 70) \<or> (97 \<le> code c \<and> code c \<le> 102))"

definition isspace :: "char \<Rightarrow> bool" where
  "isspace c = (code c = 32 \<or> (9 \<le> code c \<and> code c \<le> 13))"

definition digit_val :: "char \<Rightarrow> nat" where
  "digit_val c = code c - 48"

definition digit_char :: "nat \<Rightarrow> char" where
  "digit_char d = char_of (48 + d)"

lemma code_digit_char [simp]: "d < 10 \<Longrightarrow> code (digit_char d) = 48 + d"
  by (simp add: code_def digit_char_def)

lemma isdigit_digit_char [simp]: "d < 10 \<Longrightarrow> isdigit (digit_char d)"
  by (simp add: isdigit_def)

lemma digit_val_digit_char [simp]: "d < 10 \<Longrightarrow> digit_val (digit_char d) = d"
  by (simp add: digit_val_def)

lemma code_less_256: "code c < 256"
  by (simp add: code_def)

lemma isdigit_not_special:
  assumes "isdigit c"
  shows "c \<noteq> NUL" "c \<noteq> CR" "c \<noteq> LF" "c \<noteq> CHR '',''" "c \<noteq> CHR ''.''" "c \<noteq> CHR ''x''"
    "c \<noteq> CHR ''X''" "\<not> isspace c" "isxdigit c"
  using assms by (auto simp: isdigit_def isxdigit_def isspace_def code_def)

subsection \<open>Strings in memory\<close>

text \<open>The C string at the start of an object.\<close>

definition cstr :: "char list \<Rightarrow> string" where
  "cstr obj = takeWhile (\<lambda>c. c \<noteq> NUL) obj"

definition c_lit :: "string \<Rightarrow> char list" where
  "c_lit s = s @ [NUL]"

definition strlen :: "char list \<Rightarrow> nat cres" where
  "strlen obj = (if NUL \<in> set obj then Inr (length (cstr obj)) else Inl (UB Out_of_bounds))"

fun strncmp :: "char list \<Rightarrow> char list \<Rightarrow> nat \<Rightarrow> int cres" where
  "strncmp s t 0 = Inr 0"
| "strncmp (a # s) (b # t) (Suc n) =
     (if a \<noteq> b then Inr (int (code a) - int (code b))
      else if a = NUL then Inr 0 else strncmp s t n)"
| "strncmp _ _ (Suc n) = Inl (UB Out_of_bounds)"

fun strcmp :: "char list \<Rightarrow> char list \<Rightarrow> int cres" where
  "strcmp (a # s) (b # t) =
     (if a \<noteq> b then Inr (int (code a) - int (code b))
      else if a = NUL then Inr 0 else strcmp s t)"
| "strcmp _ _ = Inl (UB Out_of_bounds)"

text \<open>The offset of the first \<open>c\<close> in the string (\<open>strchr\<close>).\<close>

fun strchr :: "char list \<Rightarrow> char \<Rightarrow> nat option cres" where
  "strchr [] c = Inl (UB Out_of_bounds)"
| "strchr (a # s) c =
     (if a = c then Inr (Some 0)
      else if a = NUL then Inr None
      else seq (strchr s c) (\<lambda>r. Inr (map_option Suc r)))"

text \<open>The bytes \<open>strncpy(dest, src, n)\<close> reads from \<open>src\<close>, padded to \<open>n\<close>.\<close>

fun strn_read :: "char list \<Rightarrow> nat \<Rightarrow> char list cres" where
  "strn_read src 0 = Inr []"
| "strn_read [] (Suc n) = Inl (UB Out_of_bounds)"
| "strn_read (c # src) (Suc n) =
     (if c = NUL then Inr (replicate (Suc n) NUL)
      else seq (strn_read src n) (\<lambda>cs. Inr (c # cs)))"

definition strncpy :: "char list \<Rightarrow> char list \<Rightarrow> nat \<Rightarrow> char list cres" where
  "strncpy dest src n =
     seq (strn_read src n) (\<lambda>cs.
       if length dest < n then Inl (UB Out_of_bounds) else Inr (cs @ drop n dest))"

text \<open>\<open>strcat\<close>: \<open>src\<close> is given as the string without its terminator.\<close>

definition strcat :: "char list \<Rightarrow> string \<Rightarrow> char list cres" where
  "strcat dest s =
     (if NUL \<notin> set dest \<or> length dest < length (cstr dest) + length s + 1
      then Inl (UB Out_of_bounds)
      else Inr (cstr dest @ s @ NUL # drop (length (cstr dest) + length s + 1) dest))"

lemma cstr_simps [simp]:
  "cstr [] = []"
  "cstr (NUL # s) = []"
  "c \<noteq> NUL \<Longrightarrow> cstr (c # s) = c # cstr s"
  by (simp_all add: cstr_def)

lemma cstr_no_nul [simp]: "NUL \<notin> set (cstr s)"
  by (auto simp: cstr_def dest: set_takeWhileD)

lemma cstr_lit: "NUL \<notin> set s \<Longrightarrow> cstr (s @ NUL # r) = s"
  unfolding cstr_def by (rule takeWhile_append_stop) auto

lemma cstr_id: "NUL \<notin> set s \<Longrightarrow> cstr s = s"
  unfolding cstr_def by (rule takeWhile_all) auto

lemma cstr_length_less: "NUL \<in> set s \<Longrightarrow> length (cstr s) < length s"
  unfolding cstr_def by (induction s) auto

lemma cstr_split: "NUL \<in> set s \<Longrightarrow> s = cstr s @ NUL # drop (Suc (length (cstr s))) s"
  unfolding cstr_def by (induction s) auto

lemma strcat_lit:
  assumes "NUL \<notin> set a" and "length s \<le> length r"
  shows "strcat (a @ NUL # r) s = Inr (a @ s @ NUL # drop (length s) r)"
  using assms by (simp add: strcat_def cstr_lit)

lemma strlen_lit: "NUL \<notin> set s \<Longrightarrow> strlen (s @ NUL # r) = Inr (length s)"
  by (simp add: strlen_def cstr_lit)

lemma strn_read_no_nul:
  "NUL \<notin> set (take n s) \<Longrightarrow> n \<le> length s \<Longrightarrow> strn_read s n = Inr (take n s)"
  by (induction s n rule: strn_read.induct) auto

lemma strn_read_nul:
  "NUL \<in> set (take n s) \<Longrightarrow>
   strn_read s n = Inr (cstr s @ replicate (n - length (cstr s)) NUL)"
  by (induction s n rule: strn_read.induct) (auto simp: Suc_diff_le)

lemma strn_read_oob:
  "NUL \<notin> set s \<Longrightarrow> length s < n \<Longrightarrow> strn_read s n = Inl (UB Out_of_bounds)"
  by (induction s n rule: strn_read.induct) auto

lemma strn_read_Inr_length: "strn_read s n = Inr cs \<Longrightarrow> length cs = n"
  by (induction s n arbitrary: cs rule: strn_read.induct)
    (auto simp: seq_Inr_iff split: if_splits)

lemma strn_read_cstr:
  "strn_read s n = Inr cs \<Longrightarrow> cstr cs = cstr (take n s)"
  by (induction s n arbitrary: cs rule: strn_read.induct)
    (auto simp: seq_Inr_iff split: if_splits)

lemma strncmp_prefix:
  "NUL \<notin> set t \<Longrightarrow> length t \<le> length s \<Longrightarrow>
   \<exists>d. strncmp s (t @ r) (length t) = Inr d \<and> (d = 0 \<longleftrightarrow> take (length t) s = t)"
proof (induction t arbitrary: s)
  case Nil
  then show ?case by simp
next
  case (Cons b t)
  then obtain a s' where s: "s = a # s'" by (cases s) auto
  from Cons have "\<exists>d. strncmp s' (t @ r) (length t) = Inr d \<and> (d = 0 \<longleftrightarrow> take (length t) s' = t)"
    by (auto simp: s)
  with Cons.prems show ?case by (auto simp: s code_def)
qed

lemma strchr_found:
  "c \<noteq> NUL \<Longrightarrow> c \<notin> set s \<Longrightarrow> NUL \<notin> set s \<Longrightarrow> strchr (s @ c # r) c = Inr (Some (length s))"
  by (induction s) auto

lemma strchr_not_found:
  "c \<noteq> NUL \<Longrightarrow> c \<notin> set s \<Longrightarrow> NUL \<notin> set s \<Longrightarrow> strchr (s @ NUL # r) c = Inr None"
  by (induction s) auto

subsection \<open>Decimal numbers\<close>

text \<open>What \<open>sprintf("%d")\<close> prints for a number that is not negative.\<close>

fun dec :: "nat \<Rightarrow> string" where
  "dec n = (if n < 10 then [digit_char n] else dec (n div 10) @ [digit_char (n mod 10)])"

declare dec.simps [simp del]

definition digits_val :: "nat \<Rightarrow> string \<Rightarrow> nat" where
  "digits_val v s = foldl (\<lambda>a c. a * 10 + digit_val c) v s"

lemma digits_val_simps [simp]:
  "digits_val v [] = v"
  "digits_val v (c # s) = digits_val (v * 10 + digit_val c) s"
  "digits_val v (s @ t) = digits_val (digits_val v s) t"
  by (simp_all add: digits_val_def)

lemma dec_digits: "\<forall>c \<in> set (dec n). isdigit c"
proof (induction n rule: dec.induct)
  case (1 n)
  then show ?case by (subst dec.simps) auto
qed

lemma dec_digit: "c \<in> set (dec n) \<Longrightarrow> isdigit c"
  using dec_digits by blast

lemma dec_neq_Nil [simp]: "dec n \<noteq> []"
  by (subst dec.simps) simp

lemma digits_val_dec: "digits_val 0 (dec n) = n"
proof (induction n rule: dec.induct)
  case (1 n)
  then show ?case by (subst dec.simps) simp
qed

lemma dec_small: "n < 10 \<Longrightarrow> dec n = [digit_char n]"
  by (subst dec.simps) simp

lemma dec_length_3: "n < 1000 \<Longrightarrow> length (dec n) \<le> 3"
proof -
  assume n: "n < 1000"
  have a: "length (dec m) \<le> 2" if "m < 100" for m
    using that by (cases "m < 10") (simp_all add: dec.simps [of m] dec_small)
  show ?thesis
    using n a [of "n div 10"] by (simp add: dec.simps [of n])
qed

lemma dec_hd_zero: "hd (dec n) = digit_char 0 \<Longrightarrow> n = 0"
proof (induction n rule: dec.induct)
  case (1 n)
  show ?case
  proof (cases "n < 10")
    case True
    then have "digit_val (hd (dec n)) = n" by (simp add: dec_small)
    with "1.prems" show ?thesis by simp
  next
    case False
    with 1 have "n div 10 = 0" by (simp add: dec.simps [of n])
    with False show ?thesis by simp
  qed
qed

lemma dec_no_special:
  "NUL \<notin> set (dec n)" "CR \<notin> set (dec n)" "LF \<notin> set (dec n)" "CHR '','' \<notin> set (dec n)"
  "CHR ''.'' \<notin> set (dec n)"
  using dec_digit isdigit_not_special by blast+

subsection \<open>atoi\<close>

text \<open>
  \<open>atoi\<close>: white space, an optional sign, decimal digits. A value that does not fit an \<open>int\<close> has
  no defined result in the standard; the C library's \<open>(int) strtol(s, NULL, 10)\<close> is modelled,
  which saturates at 64 bits and then keeps the low 32.
\<close>

definition sat64 :: "int \<Rightarrow> int" where
  "sat64 v = max (- (2 ^ 63)) (min (2 ^ 63 - 1) v)"

definition atoi_str :: "string \<Rightarrow> int" where
  "atoi_str s =
     (let s = dropWhile isspace s;
          neg = (s \<noteq> [] \<and> hd s = CHR ''-'');
          t = (if s \<noteq> [] \<and> (hd s = CHR ''-'' \<or> hd s = CHR ''+'') then tl s else s);
          v = int (digits_val 0 (takeWhile isdigit t))
      in c_int (sat64 (if neg then - v else v)))"

definition atoi :: "char list \<Rightarrow> int cres" where
  "atoi obj = (if NUL \<in> set obj then Inr (atoi_str (cstr obj)) else Inl (UB Out_of_bounds))"

end
