(* ===== verification/RingList.thy ===== *)
theory RingList
  imports Prelude
begin

section \<open>list.h: circular doubly linked lists\<close>

text \<open>
  The macros of \<open>include/list.h\<close> over an explicit heap of \<open>struct list\<close> nodes. A node's
  address also stands for the structure the node is embedded in, so \<open>LIST_ELEM\<close> is the
  identity. Every macro is the sequence of the pointer reads and writes it expands to. The
  lemmas show that, on a ring, the macros are the operations of an abstract list: add at the
  front, add at the end, delete, splice, and visit in order.
\<close>

record node =
  nxt :: nat
  prv :: nat

type_synonym links = "nat \<Rightarrow> node option"

definition get_n :: "links \<Rightarrow> nat \<Rightarrow> nat cres" where
  "get_n h a = seq (deref h (Ref a)) (\<lambda>x. Inr (nxt x))"

definition get_p :: "links \<Rightarrow> nat \<Rightarrow> nat cres" where
  "get_p h a = seq (deref h (Ref a)) (\<lambda>x. Inr (prv x))"

definition set_n :: "links \<Rightarrow> nat \<Rightarrow> nat \<Rightarrow> links cres" where
  "set_n h a v = seq (deref h (Ref a)) (\<lambda>x. Inr (h(a \<mapsto> x\<lparr>nxt := v\<rparr>)))"

definition set_p :: "links \<Rightarrow> nat \<Rightarrow> nat \<Rightarrow> links cres" where
  "set_p h a v = seq (deref h (Ref a)) (\<lambda>x. Inr (h(a \<mapsto> x\<lparr>prv := v\<rparr>)))"

definition LIST_INIT :: "nat \<Rightarrow> links \<Rightarrow> links cres" where
  "LIST_INIT l h = seq (set_p h l l) (\<lambda>h. set_n h l l)"

definition LIST_ADD :: "nat \<Rightarrow> nat \<Rightarrow> links \<Rightarrow> links cres" where
  "LIST_ADD lh el h =
     seq (get_n h lh) (\<lambda>x.
     seq (set_n h el x) (\<lambda>h.
     seq (get_n h el) (\<lambda>y.
     seq (set_n h lh el) (\<lambda>h.
     seq (set_p h y el) (\<lambda>h.
     set_p h el lh)))))"

definition LIST_ADDQ :: "nat \<Rightarrow> nat \<Rightarrow> links \<Rightarrow> links cres" where
  "LIST_ADDQ lh el h =
     seq (get_p h lh) (\<lambda>x.
     seq (set_p h el x) (\<lambda>h.
     seq (get_p h el) (\<lambda>y.
     seq (set_p h lh el) (\<lambda>h.
     seq (set_n h y el) (\<lambda>h.
     set_n h el lh)))))"

definition LIST_ISEMPTY :: "nat \<Rightarrow> links \<Rightarrow> bool cres" where
  "LIST_ISEMPTY lh h = seq (get_n h lh) (\<lambda>x. Inr (x = lh))"

definition LIST_ADDED :: "nat \<Rightarrow> links \<Rightarrow> bool cres" where
  "LIST_ADDED el h = seq (get_n h el) (\<lambda>x. Inr (x \<noteq> el))"

definition LIST_SPLICE :: "nat \<Rightarrow> nat \<Rightarrow> links \<Rightarrow> links cres" where
  "LIST_SPLICE new old h =
     seq (LIST_ISEMPTY old h) (\<lambda>e.
     if e then Inr h else
     seq (get_n h new) (\<lambda>first.
     seq (get_p h old) (\<lambda>op.
     seq (set_n h op first) (\<lambda>h.
     seq (get_n h old) (\<lambda>on.
     seq (set_p h on new) (\<lambda>h.
     seq (get_p h old) (\<lambda>op.
     seq (get_n h new) (\<lambda>nn.
     seq (set_p h nn op) (\<lambda>h.
     seq (get_n h old) (\<lambda>on.
     set_n h new on))))))))))"

definition LIST_SPLICE_END_DETACHED :: "nat \<Rightarrow> nat \<Rightarrow> links \<Rightarrow> links cres" where
  "LIST_SPLICE_END_DETACHED new old h =
     seq (get_p h new) (\<lambda>np.
     seq (set_n h np old) (\<lambda>h.
     seq (get_p h old) (\<lambda>op.
     seq (set_n h op new) (\<lambda>h.
     seq (get_p h old) (\<lambda>t.
     seq (get_p h new) (\<lambda>np.
     seq (set_p h old np) (\<lambda>h.
     set_p h new t)))))))"

definition LIST_DEL :: "nat \<Rightarrow> links \<Rightarrow> links cres" where
  "LIST_DEL el h =
     seq (get_n h el) (\<lambda>x.
     seq (get_p h el) (\<lambda>y.
     seq (set_p h x y) (\<lambda>h.
     seq (get_p h el) (\<lambda>y.
     seq (get_n h el) (\<lambda>x.
     set_n h y x)))))"

definition LIST_DEL_INIT :: "nat \<Rightarrow> links \<Rightarrow> links cres" where
  "LIST_DEL_INIT el h =
     seq (get_n h el) (\<lambda>n.
     seq (get_p h el) (\<lambda>p.
     seq (set_p h n p) (\<lambda>h.
     seq (set_n h p n) (\<lambda>h.
     seq (set_p h el el) (\<lambda>h.
     set_n h el el)))))"

definition LIST_ELEM :: "nat \<Rightarrow> nat" where
  "LIST_ELEM a = a"

definition LIST_NEXT :: "nat \<Rightarrow> links \<Rightarrow> nat cres" where
  "LIST_NEXT lh h = seq (get_n h lh) (\<lambda>x. Inr (LIST_ELEM x))"

definition LIST_PREV :: "nat \<Rightarrow> links \<Rightarrow> nat cres" where
  "LIST_PREV lh h = seq (get_p h lh) (\<lambda>x. Inr (LIST_ELEM x))"

text \<open>
  The loops. The list of the items a \<open>list_for_each_entry\<close> loop visits from \<open>item\<close> on; a loop
  that has not come back to the head after \<open>fuel\<close> rounds gives \<open>Out_of_fuel\<close>. The
  lemmas show that on a ring the number of its nodes is enough.
\<close>

fun list_for_each_entry_from :: "nat \<Rightarrow> nat \<Rightarrow> links \<Rightarrow> nat \<Rightarrow> nat list cres" where
  "list_for_each_entry_from 0 head h item = Inl Out_of_fuel"
| "list_for_each_entry_from (Suc fuel) head h item =
     (if item = head then Inr []
      else seq (get_n h item) (\<lambda>x.
           seq (list_for_each_entry_from fuel head h (LIST_ELEM x)) (\<lambda>xs. Inr (item # xs))))"

definition list_for_each_entry :: "nat \<Rightarrow> nat \<Rightarrow> links \<Rightarrow> nat list cres" where
  "list_for_each_entry fuel head h =
     seq (get_n h head) (\<lambda>x. list_for_each_entry_from fuel head h (LIST_ELEM x))"

text \<open>
  \<open>list_for_each_entry_safe\<close> reads the successor of \<open>item\<close> into \<open>back\<close> before the body runs. The
  body is a step on a state \<open>s\<close> in which the links are found by \<open>lk\<close>.
\<close>

fun list_for_each_entry_safe_from ::
  "('s \<Rightarrow> links) \<Rightarrow> (nat \<Rightarrow> 's \<Rightarrow> 's cres) \<Rightarrow> nat \<Rightarrow> nat \<Rightarrow> nat \<Rightarrow> nat \<Rightarrow> 's \<Rightarrow> 's cres" where
  "list_for_each_entry_safe_from lk body 0 head item back s = Inl Out_of_fuel"
| "list_for_each_entry_safe_from lk body (Suc fuel) head item back s =
     (if item = head then Inr s
      else seq (body item s) (\<lambda>s.
           seq (get_n (lk s) back) (\<lambda>back'.
           list_for_each_entry_safe_from lk body fuel head back (LIST_ELEM back') s)))"

definition list_for_each_entry_safe ::
  "('s \<Rightarrow> links) \<Rightarrow> (nat \<Rightarrow> 's \<Rightarrow> 's cres) \<Rightarrow> nat \<Rightarrow> nat \<Rightarrow> 's \<Rightarrow> 's cres" where
  "list_for_each_entry_safe lk body fuel head s =
     seq (get_n (lk s) head) (\<lambda>item.
     seq (get_n (lk s) item) (\<lambda>back.
     list_for_each_entry_safe_from lk body fuel head (LIST_ELEM item) (LIST_ELEM back) s))"

lemmas list_macro_defs =
  LIST_INIT_def LIST_ADD_def LIST_ADDQ_def LIST_ISEMPTY_def LIST_ADDED_def LIST_SPLICE_def
  LIST_SPLICE_END_DETACHED_def LIST_DEL_def LIST_DEL_INIT_def LIST_NEXT_def LIST_PREV_def
  LIST_ELEM_def

subsection \<open>Access lemmas\<close>

definition nx :: "links \<Rightarrow> nat \<Rightarrow> nat option" where
  "nx h a = map_option nxt (h a)"

definition pv :: "links \<Rightarrow> nat \<Rightarrow> nat option" where
  "pv h a = map_option prv (h a)"

lemma get_n_Some [simp]: "nx h a = Some b \<Longrightarrow> get_n h a = Inr b"
  by (auto simp: get_n_def nx_def)

lemma get_p_Some [simp]: "pv h a = Some b \<Longrightarrow> get_p h a = Inr b"
  by (auto simp: get_p_def pv_def)

definition upd_n :: "links \<Rightarrow> nat \<Rightarrow> nat \<Rightarrow> links" where
  "upd_n h a v = h(a := map_option (\<lambda>x. x\<lparr>nxt := v\<rparr>) (h a))"

definition upd_p :: "links \<Rightarrow> nat \<Rightarrow> nat \<Rightarrow> links" where
  "upd_p h a v = h(a := map_option (\<lambda>x. x\<lparr>prv := v\<rparr>) (h a))"

lemma set_n_dom [simp]: "a \<in> dom h \<Longrightarrow> set_n h a v = Inr (upd_n h a v)"
  by (auto simp: set_n_def upd_n_def)

lemma set_p_dom [simp]: "a \<in> dom h \<Longrightarrow> set_p h a v = Inr (upd_p h a v)"
  by (auto simp: set_p_def upd_p_def)

lemma upd_dom [simp]: "dom (upd_n h a v) = dom h" "dom (upd_p h a v) = dom h"
  by (auto simp: upd_n_def upd_p_def dom_def)

lemma nx_upd [simp]:
  "nx (upd_n h a v) b = (if b = a \<and> a \<in> dom h then Some v else nx h b)"
  "nx (upd_p h a v) b = nx h b"
  by (cases "h a"; auto simp: nx_def upd_n_def upd_p_def option.map_comp comp_def)+

lemma pv_upd [simp]:
  "pv (upd_p h a v) b = (if b = a \<and> a \<in> dom h then Some v else pv h b)"
  "pv (upd_n h a v) b = pv h b"
  by (cases "h a"; auto simp: pv_def upd_n_def upd_p_def option.map_comp comp_def)+

lemma upd_other [simp]:
  "b \<noteq> a \<Longrightarrow> upd_n h a v b = h b" "b \<noteq> a \<Longrightarrow> upd_p h a v b = h b"
  by (simp_all add: upd_n_def upd_p_def)

lemma nx_dom: "nx h a = Some b \<Longrightarrow> a \<in> dom h"
  by (auto simp: nx_def)

lemma pv_dom: "pv h a = Some b \<Longrightarrow> a \<in> dom h"
  by (auto simp: pv_def)

lemma dom_nx: "a \<in> dom h \<Longrightarrow> \<exists>b. nx h a = Some b"
  by (auto simp: nx_def)

lemma nx_cong: "h' a = h a \<Longrightarrow> nx h' a = nx h a"
  by (simp add: nx_def)

lemma pv_cong: "h' a = h a \<Longrightarrow> pv h' a = pv h a"
  by (simp add: pv_def)

subsection \<open>Rings\<close>

text \<open>\<open>linked h xs\<close>: neighbours in \<open>xs\<close> point to each other. \<open>ring h hp xs\<close>: the head \<open>hp\<close> and
  the elements \<open>xs\<close>, in this order, are a circular list.\<close>

fun linked :: "links \<Rightarrow> nat list \<Rightarrow> bool" where
  "linked h (a # b # l) = (nx h a = Some b \<and> pv h b = Some a \<and> linked h (b # l))"
| "linked h _ = True"

definition ring :: "links \<Rightarrow> nat \<Rightarrow> nat list \<Rightarrow> bool" where
  "ring h hp xs = (distinct (hp # xs) \<and> linked h (hp # xs @ [hp]))"

lemma linked_append:
  "linked h (xs @ a # ys) = (linked h (xs @ [a]) \<and> linked h (a # ys))"
proof (induction xs)
  case Nil
  then show ?case by simp
next
  case (Cons x xs)
  then show ?case by (cases xs) auto
qed

lemma linked_frame:
  "linked h xs \<Longrightarrow> \<forall>x \<in> set (butlast xs). nx h' x = nx h x \<Longrightarrow>
   \<forall>x \<in> set (tl xs). pv h' x = pv h x \<Longrightarrow> linked h' xs"
  by (induction h xs rule: linked.induct) auto

lemma linked_snoc: "linked h (xs @ [a, b]) = (linked h (xs @ [a]) \<and> nx h a = Some b \<and> pv h b = Some a)"
  using linked_append [of h xs a "[b]"] by simp

lemma linked_mid_dom:
  "linked h (a # xs @ [b]) \<Longrightarrow> set xs \<subseteq> dom h"
proof (induction xs arbitrary: a)
  case Nil
  then show ?case by simp
next
  case (Cons x xs)
  then show ?case by (cases xs) (auto dest: pv_dom)
qed

lemma ring_dom: "ring h hp xs \<Longrightarrow> set (hp # xs) \<subseteq> dom h"
proof -
  assume r: "ring h hp xs"
  then have "linked h (hp # xs @ [hp])" by (simp add: ring_def)
  moreover from this have "hp \<in> dom h" by (cases xs) (auto dest: nx_dom)
  ultimately show ?thesis by (auto dest: linked_mid_dom)
qed

lemma ring_distinct: "ring h hp xs \<Longrightarrow> distinct xs \<and> hp \<notin> set xs"
  by (simp add: ring_def)

lemma ring_frame:
  assumes "ring h hp xs" and "\<forall>a \<in> set (hp # xs). h' a = h a"
  shows "ring h' hp xs"
proof -
  have "linked h' (hp # xs @ [hp])"
    by (rule linked_frame [where h = h])
      (use assms in \<open>auto simp: ring_def butlast_append intro!: nx_cong pv_cong split: if_splits\<close>)
  with assms(1) show ?thesis by (simp add: ring_def)
qed

lemma ring_empty_iff: "ring h hp [] \<longleftrightarrow> nx h hp = Some hp \<and> pv h hp = Some hp"
  by (simp add: ring_def)

lemma ring_unique:
  assumes "ring h hp xs" and "ring h hp ys"
  shows "xs = ys"
proof -
  have aux: "linked h (a # xs @ [hp]) \<Longrightarrow> linked h (a # ys @ [hp]) \<Longrightarrow> hp \<notin> set xs \<Longrightarrow>
    hp \<notin> set ys \<Longrightarrow> xs = ys" for a
  proof (induction xs arbitrary: a ys)
    case Nil
    then show ?case by (cases ys) auto
  next
    case (Cons x xs)
    then show ?case by (cases ys) auto
  qed
  from assms show ?thesis by (auto simp: ring_def intro: aux)
qed

lemma LIST_INIT_ring:
  assumes "l \<in> dom h"
  shows "\<exists>h'. LIST_INIT l h = Inr h' \<and> ring h' l [] \<and> dom h' = dom h \<and> (\<forall>a. a \<noteq> l \<longrightarrow> h' a = h a)"
  using assms by (simp add: LIST_INIT_def ring_empty_iff)

lemma ring_first: "ring h hp xs \<Longrightarrow> nx h hp = Some (hd (xs @ [hp]))"
  by (cases xs) (auto simp: ring_def)

lemma ring_last: "ring h hp xs \<Longrightarrow> pv h hp = Some (last (hp # xs))"
proof -
  assume r: "ring h hp xs"
  then have "linked h (butlast (hp # xs) @ [last (hp # xs), hp])"
    by (metis append_butlast_last_id append.assoc append_Cons append_Nil list.distinct(1) ring_def)
  then show ?thesis by (simp add: linked_snoc)
qed

lemma LIST_ADD_ring:
  assumes r: "ring h hp xs" and el: "el \<in> dom h" and new: "el \<notin> set (hp # xs)"
  shows "\<exists>h'. LIST_ADD hp el h = Inr h' \<and> ring h' hp (el # xs) \<and> dom h' = dom h \<and>
           (\<forall>a. a \<notin> {hp, el, hd (xs @ [hp])} \<longrightarrow> h' a = h a)"
proof -
  let ?f = "hd (xs @ [hp])"
  have f: "nx h hp = Some ?f" and fd: "?f \<in> dom h" and hp: "hp \<in> dom h" and fe: "?f \<noteq> el"
    using r new ring_first [OF r] ring_dom [OF r] by (cases xs; auto)+
  let ?h = "upd_p (upd_p (upd_n (upd_n h el ?f) hp el) ?f el) el hp"
  have run: "LIST_ADD hp el h = Inr ?h"
    using f fd hp el new by (simp add: LIST_ADD_def)
  have "linked ?h (hp # el # xs @ [hp])"
  proof (cases xs)
    case Nil
    with r el hp new show ?thesis by (auto simp: ring_def)
  next
    case (Cons x ys)
    have "linked ?h (x # ys @ [hp])"
      by (rule linked_frame [where h = h])
        (use r new Cons in \<open>auto simp: ring_def butlast_append split: if_splits\<close>)
    with Cons r el hp new fd show ?thesis by (auto simp: ring_def)
  qed
  with run r new show ?thesis by (auto simp: ring_def)
qed

lemma linked_snoc2:
  "linked h (b @ [l, e, f]) \<longleftrightarrow>
     linked h (b @ [l]) \<and> nx h l = Some e \<and> pv h e = Some l \<and> nx h e = Some f \<and> pv h f = Some e"
  using linked_append [of h b l "[e, f]"] by simp

lemma LIST_ADDQ_ring:
  assumes r: "ring h hp xs" and el: "el \<in> dom h" and new: "el \<notin> set (hp # xs)"
  shows "\<exists>h'. LIST_ADDQ hp el h = Inr h' \<and> ring h' hp (xs @ [el]) \<and> dom h' = dom h \<and>
           (\<forall>a. a \<notin> {hp, el, last (hp # xs)} \<longrightarrow> h' a = h a)"
proof -
  obtain b l where bl: "hp # xs = b @ [l]" by (metis list.distinct(1) rev_exhaust)
  then have last: "last (hp # xs) = l" by simp
  have hp: "hp \<in> dom h" using ring_dom [OF r] by auto
  have l: "pv h hp = Some l" and ld: "l \<in> dom h" and le: "l \<noteq> el"
    using new ring_last [OF r] ring_dom [OF r] bl last by (auto simp del: last.simps)
  let ?h = "upd_n (upd_n (upd_p (upd_p h el l) hp el) l el) el hp"
  have run: "LIST_ADDQ hp el h = Inr ?h"
    using l ld hp el new le by (simp add: LIST_ADDQ_def)
  have "linked h (b @ [l, hp])"
    using r bl by (metis append.assoc append_Cons append_Nil ring_def)
  then have old: "linked h (b @ [l])" by (simp add: linked_snoc)
  have "distinct (hp # xs)" using r by (simp add: ring_def)
  then have db: "distinct (b @ [l])" "el \<notin> set (b @ [l])"
    using new unfolding bl by simp_all
  have tl: "tl (b @ [l]) = xs" using bl by (metis list.sel(3))
  have "linked ?h (b @ [l])"
    by (rule linked_frame [OF old]) (use db r new tl in \<open>auto simp: ring_def\<close>)
  then have "linked ?h (b @ [l, el, hp])"
    using le hp el ld new by (auto simp: linked_snoc2)
  then have "linked ?h (hp # (xs @ [el]) @ [hp])"
    using bl by (metis append.assoc append_Cons append_Nil)
  with run r new last show ?thesis by (auto simp: ring_def simp del: last.simps)
qed

lemma LIST_ISEMPTY_ring: "ring h hp xs \<Longrightarrow> LIST_ISEMPTY hp h = Inr (xs = [])"
  using ring_first [of h hp xs] by (cases xs) (auto simp: LIST_ISEMPTY_def ring_def)

lemma ring_neighbours:
  assumes "ring h hp (as @ el # bs)"
  shows "nx h el = Some (hd (bs @ [hp]))" "pv h el = Some (last (hp # as))"
proof -
  have l: "linked h ((hp # as) @ el # bs @ [hp])"
    using assms by (simp add: ring_def)
  then have "linked h (el # bs @ [hp])" and "linked h ((hp # as) @ [el])"
    using linked_append [of h "hp # as" el "bs @ [hp]"] by auto
  then have "linked h (butlast (hp # as) @ [last (hp # as), el])"
    by (metis append.assoc append_Cons append_Nil append_butlast_last_id list.distinct(1))
  then show "pv h el = Some (last (hp # as))" by (simp add: linked_snoc)
  show "nx h el = Some (hd (bs @ [hp]))"
    using \<open>linked h (el # bs @ [hp])\<close> by (cases bs) auto
qed

lemma linked_cut:
  assumes l: "linked h (b @ [l])" and f: "linked h (f # c)"
    and b: "l \<notin> set b" "l \<notin> set (butlast (f # c))" and fc: "f \<notin> set c" "f \<notin> set (tl (b @ [l]))"
    and ld: "l \<in> dom h" and fd: "f \<in> dom h"
  shows "linked (upd_n (upd_p h f l) l f) (b @ l # f # c)"
proof -
  let ?h = "upd_n (upd_p h f l) l f"
  have "linked ?h (b @ [l])"
    by (rule linked_frame [OF l]) (use b fc in auto)
  moreover have "linked ?h (f # c)"
    by (rule linked_frame [OF f]) (use b fc in auto)
  ultimately show ?thesis
    using ld fd linked_append [of ?h b l "f # c"] by simp
qed

lemma ring_delete:
  assumes r: "ring h hp (as @ el # bs)"
  shows "ring (upd_n (upd_p h (hd (bs @ [hp])) (last (hp # as))) (last (hp # as)) (hd (bs @ [hp]))) hp (as @ bs)"
proof -
  obtain b l where bl: "hp # as = b @ [l]" by (metis list.distinct(1) rev_exhaust)
  obtain f c where fc: "bs @ [hp] = f # c" by (metis append_is_Nil_conv list.distinct(1) neq_Nil_conv)
  have lk: "linked h ((hp # as) @ el # bs @ [hp])" using r by (simp add: ring_def)
  then have "linked h (b @ [l, el])" "linked h (el # f # c)"
    using linked_append [of h "hp # as" el "bs @ [hp]"] bl fc by auto
  then have 1: "linked h (b @ [l])" "linked h (f # c)"
    by (simp_all add: linked_snoc)
  have d: "hp \<notin> set as" "hp \<notin> set bs" "set as \<inter> set bs = {}" "distinct bs"
    and da: "distinct (hp # as)"
    using r by (auto simp: ring_def)
  have db: "distinct (b @ [l])" using da unfolding bl .
  have tl: "tl (b @ [l]) = as" and bu: "butlast (f # c) = bs"
    using bl fc by (metis list.sel(3), metis butlast_snoc)
  have "l \<in> set (hp # as)" "f \<in> set (bs @ [hp])" by (simp_all add: bl fc)
  then have lf: "l \<notin> set bs" "f \<notin> set as" "l \<in> dom h" "f \<in> dom h"
    using d ring_dom [OF r] by auto
  have "distinct (bs @ [hp])" using d by simp
  then have "distinct (f # c)" unfolding fc .
  then have "linked (upd_n (upd_p h f l) l f) (b @ l # f # c)"
    using 1 db lf tl bu by (intro linked_cut) auto
  moreover have "b @ l # f # c = hp # (as @ bs) @ [hp]"
    using bl fc by (metis append.assoc append_Cons append_Nil)
  moreover have "last (hp # as) = l" "hd (bs @ [hp]) = f" by (simp_all add: bl fc)
  ultimately show ?thesis using r by (auto simp: ring_def simp del: last.simps)
qed

lemma LIST_DEL_ring:
  assumes r: "ring h hp (as @ el # bs)"
  shows "\<exists>h'. LIST_DEL el h = Inr h' \<and> ring h' hp (as @ bs) \<and> dom h' = dom h \<and> h' el = h el \<and>
           (\<forall>a. a \<notin> {hd (bs @ [hp]), last (hp # as)} \<longrightarrow> h' a = h a)"
proof -
  let ?f = "hd (bs @ [hp])" and ?l = "last (hp # as)"
  have n: "nx h el = Some ?f" "pv h el = Some ?l"
    using ring_neighbours [OF r] by simp_all
  have d: "?f \<in> dom h" "?l \<in> dom h" "?f \<noteq> el" "?l \<noteq> el"
    using r ring_dom [OF r] last_in_set [of "hp # as"] by (cases bs; auto simp: ring_def simp del: last.simps)+
  have "LIST_DEL el h = Inr (upd_n (upd_p h ?f ?l) ?l ?f)"
    using n d by (simp add: LIST_DEL_def del: last.simps)
  with ring_delete [OF r] d show ?thesis by (simp del: last.simps)
qed

lemma LIST_DEL_INIT_ring:
  assumes r: "ring h hp (as @ el # bs)"
  shows "\<exists>h'. LIST_DEL_INIT el h = Inr h' \<and> ring h' hp (as @ bs) \<and> ring h' el [] \<and> dom h' = dom h"
proof -
  let ?f = "hd (bs @ [hp])" and ?l = "last (hp # as)"
  let ?h = "upd_n (upd_p h ?f ?l) ?l ?f"
  have n: "nx h el = Some ?f" "pv h el = Some ?l"
    using ring_neighbours [OF r] by simp_all
  have d: "?f \<in> dom h" "?l \<in> dom h" "?f \<noteq> el" "?l \<noteq> el" and e: "el \<in> dom h"
    using r ring_dom [OF r] last_in_set [of "hp # as"] by (cases bs; auto simp: ring_def simp del: last.simps)+
  have run: "LIST_DEL_INIT el h = Inr (upd_n (upd_p ?h el el) el el)"
    using n d e by (simp add: LIST_DEL_INIT_def del: last.simps)
  have "ring (upd_n (upd_p ?h el el) el el) hp (as @ bs)"
  proof (rule ring_frame [OF ring_delete [OF r]])
    have "el \<notin> set (hp # as @ bs)" using r by (auto simp: ring_def)
    then show "\<forall>a\<in>set (hp # as @ bs). upd_n (upd_p ?h el el) el el a = ?h a"
      by (metis upd_other)
  qed
  with run e show ?thesis by (simp add: ring_empty_iff)
qed

lemma linked_tlD: "linked h (a # l) \<Longrightarrow> linked h l"
  by (cases l) auto

lemma linked_butlastD: "linked h (l @ [a]) \<Longrightarrow> linked h l"
  by (cases l rule: rev_cases) (auto simp: linked_snoc)

lemma ring_segments:
  assumes "ring h hp xs"
  shows "linked h xs" "linked h (xs @ [hp])" "linked h (hp # xs)"
proof -
  have l: "linked h (hp # xs @ [hp])" using assms by (simp add: ring_def)
  then show "linked h (xs @ [hp])" by (rule linked_tlD)
  then show "linked h xs" by (rule linked_butlastD)
  show "linked h (hp # xs)" using l linked_butlastD [of h "hp # xs" hp] by simp
qed

lemma linked_bridge:
  assumes a: "linked h ys" "ys = f # c" "ys = b @ [l]" and g: "linked h (g # d)"
    and la: "l \<notin> set b" "new \<notin> set b" "f \<notin> set c" "g \<notin> set c"
    and lg: "l \<notin> set (butlast (g # d))" "new \<notin> set (butlast (g # d))" "f \<notin> set d" "g \<notin> set d"
    and dm: "new \<in> dom h" "l \<in> dom h" "f \<in> dom h" "g \<in> dom h"
    and ne: "new \<noteq> l" "f \<noteq> g"
  shows "linked (upd_n (upd_p (upd_p (upd_n h l g) f new) g l) new f) (new # ys @ g # d)"
proof -
  let ?h = "upd_n (upd_p (upd_p (upd_n h l g) f new) g l) new f"
  have bu: "butlast ys = b" "tl ys = c"
    by (simp add: a(3), simp add: a(2))
  have 1: "linked ?h ys"
    by (rule linked_frame [OF a(1)]) (use bu la in auto)
  have 2: "linked ?h (g # d)"
    by (rule linked_frame [OF g]) (use lg in auto)
  have "linked ?h (new # ys)"
    using 1 dm ne a(2) by simp
  then have "linked ?h ((new # b) @ [l])" by (simp add: a(3))
  moreover have "linked ?h (l # g # d)"
    using 2 dm ne by simp
  ultimately have "linked ?h ((new # b) @ l # g # d)"
    using linked_append [of ?h "new # b" l "g # d"] by simp
  then show ?thesis by (simp add: a(3))
qed

lemma LIST_SPLICE_ring:
  assumes r: "ring h new xs" and o: "ring h old ys"
    and dis: "set (new # xs) \<inter> set (old # ys) = {}"
  shows "\<exists>h'. LIST_SPLICE new old h = Inr h' \<and> ring h' new (ys @ xs) \<and> dom h' = dom h"
proof (cases "ys = []")
  case True
  with LIST_ISEMPTY_ring [OF o] r show ?thesis by (simp add: LIST_SPLICE_def)
next
  case False
  then obtain b l where bl: "ys = b @ [l]" by (metis rev_exhaust)
  obtain f c where fc: "ys = f # c" using False by (cases ys) auto
  obtain g d where gd: "xs @ [new] = g # d" by (metis append_is_Nil_conv list.distinct(1) neq_Nil_conv)
  have sub: "set (new # xs) \<subseteq> dom h" "set (old # ys) \<subseteq> dom h"
    using ring_dom [OF r] ring_dom [OF o] .
  have mem: "g \<in> set (xs @ [new])" "set d \<subseteq> set (xs @ [new])" "f \<in> set ys" "l \<in> set ys"
    "set b \<subseteq> set ys" "set c \<subseteq> set ys"
  proof -
    show "g \<in> set (xs @ [new])" "set d \<subseteq> set (xs @ [new])" unfolding gd by auto
    show "f \<in> set ys" "set c \<subseteq> set ys" unfolding fc by auto
    show "l \<in> set ys" "set b \<subseteq> set ys" unfolding bl by auto
  qed
  have dm: "new \<in> dom h" "l \<in> dom h" "f \<in> dom h" "g \<in> dom h" "old \<in> dom h"
    using sub mem by auto
  have "distinct (xs @ [new])" "distinct ys" "distinct (new # xs)" using r o by (auto simp: ring_def)
  then have dist: "distinct (g # d)" "distinct (f # c)" "distinct (b @ [l])" "new \<notin> set xs"
  proof -
    show "distinct (g # d)" using \<open>distinct (xs @ [new])\<close> unfolding gd .
    show "distinct (f # c)" using \<open>distinct ys\<close> unfolding fc .
    show "distinct (b @ [l])" using \<open>distinct ys\<close> unfolding bl .
  qed simp
  have ne: "new \<noteq> l" "f \<noteq> g" "old \<noteq> l" "old \<noteq> g" "old \<noteq> f" "new \<noteq> old" "new \<noteq> f"
    using dis mem o by (auto simp: ring_def)
  have bu: "butlast (g # d) = xs" using gd by (metis butlast_snoc)
  have n: "nx h new = Some g" "pv h old = Some l" "nx h old = Some f"
    using ring_first [OF r] ring_last [OF o] ring_first [OF o] gd by (simp_all add: bl, simp add: bl [symmetric] fc)
  let ?h = "upd_n (upd_p (upd_p (upd_n h l g) f new) g l) new f"
  have run: "LIST_SPLICE new old h = Inr ?h"
    using LIST_ISEMPTY_ring [OF o] False n dm ne by (simp add: LIST_SPLICE_def)
  have "linked ?h (new # ys @ g # d)"
  proof (rule linked_bridge [OF ring_segments(1) [OF o] fc bl])
    show "linked h (g # d)" using ring_segments(2) [OF r] gd by simp
  qed (use dist ne dm bu mem dis in auto)
  then have "linked ?h (new # (ys @ xs) @ [new])" using gd by simp
  moreover have "distinct (new # ys @ xs)" using r o dis by (auto simp: ring_def)
  ultimately show ?thesis using run by (simp add: ring_def)
qed

lemma LIST_SPLICE_END_DETACHED_ring:
  assumes r: "ring h new xs" and o: "ring h old ys"
    and dis: "set (new # xs) \<inter> set (old # ys) = {}"
  shows "\<exists>h'. LIST_SPLICE_END_DETACHED new old h = Inr h' \<and> ring h' new (xs @ old # ys) \<and> dom h' = dom h"
proof -
  obtain b l where bl: "new # xs = b @ [l]" by (metis list.distinct(1) rev_exhaust)
  obtain e k where ek: "old # ys = e @ [k]" by (metis list.distinct(1) rev_exhaust)
  have sub: "set (new # xs) \<subseteq> dom h" "set (old # ys) \<subseteq> dom h"
    using ring_dom [OF r] ring_dom [OF o] .
  have l: "l \<in> set (new # xs)" "set b \<subseteq> set (new # xs)" "k \<in> set (old # ys)" "set e \<subseteq> set (old # ys)"
    unfolding bl ek by auto
  have lk: "last (new # xs) = l" "last (old # ys) = k" by (simp_all add: bl ek)
  have dm: "new \<in> dom h" "old \<in> dom h" "l \<in> dom h" "k \<in> dom h"
    using sub l by auto
  have ne: "new \<noteq> old" "l \<noteq> old" "l \<noteq> k" "new \<noteq> k" using dis l by auto
  have n: "pv h new = Some l" "pv h old = Some k"
    using ring_last [OF r] ring_last [OF o] lk by simp_all
  let ?h = "upd_p (upd_p (upd_n (upd_n h l old) k new) old l) new k"
  have run: "LIST_SPLICE_END_DETACHED new old h = Inr ?h"
    using n dm ne by (simp add: LIST_SPLICE_END_DETACHED_def)
  have "distinct (new # xs)" "distinct (old # ys)" using r o by (auto simp: ring_def)
  then have dist: "distinct (b @ [l])" "distinct (e @ [k])" "new \<notin> set xs" "old \<notin> set ys"
    by (simp_all add: bl [symmetric] ek [symmetric])
  have tl: "tl (b @ [l]) = xs" "tl (e @ [k]) = ys" using bl ek by (metis list.sel(3))+
  have "linked h (b @ [l])" "linked h (e @ [k])"
    using ring_segments(3) [OF r] ring_segments(3) [OF o] bl ek by simp_all
  then have "linked ?h (b @ [l])" "linked ?h (e @ [k])"
    by (auto elim!: linked_frame) (use dist tl l dis in auto)
  then have "linked ?h ((l # e) @ [k])" using dm ne ek [symmetric] by simp
  then have "linked ?h ((l # e) @ [k, new])" using dm ne by (simp only: linked_snoc) simp
  then have "linked ?h ((b @ [l]) @ (e @ [k]) @ [new])"
    using \<open>linked ?h (b @ [l])\<close> linked_append [of ?h b l "e @ [k, new]"] by simp
  then have "linked ?h (new # (xs @ old # ys) @ [new])" unfolding bl [symmetric] ek [symmetric] by simp
  moreover have "distinct (new # xs @ old # ys)" using r o dis by (auto simp: ring_def)
  ultimately show ?thesis using run by (simp add: ring_def)
qed

subsection \<open>The loops\<close>

lemma list_for_each_entry_from_linked:
  "linked h (xs @ [hp]) \<Longrightarrow> hp \<notin> set xs \<Longrightarrow> length xs < fuel \<Longrightarrow>
   list_for_each_entry_from fuel hp h (hd (xs @ [hp])) = Inr xs"
proof (induction xs arbitrary: fuel)
  case Nil
  then show ?case by (cases fuel) auto
next
  case (Cons x xs)
  then obtain f where f: "fuel = Suc f" by (cases fuel) auto
  have "nx h x = Some (hd (xs @ [hp]))" using Cons.prems(1) by (cases xs) auto
  with Cons f show ?case by (auto simp: LIST_ELEM_def dest: linked_tlD)
qed

lemma list_for_each_entry_ring:
  assumes "ring h hp xs" and "length xs < fuel"
  shows "list_for_each_entry fuel hp h = Inr xs"
  using assms ring_first [OF assms(1)] ring_segments(2) [OF assms(1)] ring_distinct [OF assms(1)]
  by (simp add: list_for_each_entry_def LIST_ELEM_def list_for_each_entry_from_linked)

text \<open>
  The rule for \<open>list_for_each_entry_safe\<close>: \<open>I rest s\<close> holds when the items \<open>rest\<close> are still to be
  visited; the body may unlink or free the item it is called with.
\<close>

lemma list_for_each_entry_safe_from_ends:
  assumes body: "\<And>x rest s. I (x # rest) s \<Longrightarrow> ends (body x s) (I rest)"
    and lk: "\<And>rest s. I rest s \<Longrightarrow> linked (lk s) (rest @ [hp]) \<and> hp \<in> dom (lk s) \<and> hp \<notin> set rest"
  shows "I xs s \<Longrightarrow> length xs < fuel \<Longrightarrow> (xs \<noteq> [] \<longrightarrow> bk = hd (tl xs @ [hp])) \<Longrightarrow>
    ends (list_for_each_entry_safe_from lk body fuel hp (hd (xs @ [hp])) bk s) (I [])"
proof (induction xs arbitrary: fuel s bk)
  case Nil
  then show ?case by (cases fuel) auto
next
  case (Cons x xs)
  obtain f where f: "fuel = Suc f" using Cons.prems(2) by (cases fuel) auto
  have "x \<noteq> hp" using lk [OF Cons.prems(1)] by auto
  moreover have "ends (seq (get_n (lk s') (hd (xs @ [hp]))) (\<lambda>b.
      list_for_each_entry_safe_from lk body f hp (hd (xs @ [hp])) (LIST_ELEM b) s')) (I [])"
    if I: "I xs s'" for s'
  proof -
    have "hd (xs @ [hp]) \<in> dom (lk s')"
      using lk [OF I] by (cases xs; cases "tl xs"; auto dest: nx_dom)
    then obtain b where b: "nx (lk s') (hd (xs @ [hp])) = Some b" by (metis dom_nx)
    have "xs \<noteq> [] \<longrightarrow> b = hd (tl xs @ [hp])"
      using b lk [OF I] by (cases xs; cases "tl xs"; auto)
    then have "ends (list_for_each_entry_safe_from lk body f hp (hd (xs @ [hp])) b s') (I [])"
      using Cons.IH [OF I] Cons.prems(2) f by simp
    with b show ?thesis by (simp add: LIST_ELEM_def)
  qed
  ultimately show ?case
    using ends_mono [OF body [OF Cons.prems(1)]] Cons.prems(3) f by simp
qed

lemma list_for_each_entry_safe_ends:
  assumes body: "\<And>x rest s. I (x # rest) s \<Longrightarrow> ends (body x s) (I rest)"
    and lk: "\<And>rest s. I rest s \<Longrightarrow> linked (lk s) (rest @ [hp]) \<and> hp \<in> dom (lk s) \<and> hp \<notin> set rest"
    and start: "I xs s" "ring (lk s) hp xs" "length xs < fuel"
  shows "ends (list_for_each_entry_safe lk body fuel hp s) (I [])"
proof -
  have "hd (xs @ [hp]) \<in> dom (lk s)"
    using ring_dom [OF start(2)] by (cases xs) auto
  then obtain b where b: "nx (lk s) (hd (xs @ [hp])) = Some b" by (metis dom_nx)
  have "xs \<noteq> [] \<longrightarrow> b = hd (tl xs @ [hp])"
    using b start(2) by (cases xs; cases "tl xs"; auto simp: ring_def)
  with list_for_each_entry_safe_from_ends [where I = I and body = body and lk = lk, OF body lk start(1,3)] ring_first [OF start(2)] b
  show ?thesis by (simp add: list_for_each_entry_safe_def LIST_ELEM_def)
qed

lemma list_for_each_entry_safe_empty:
  "ring (lk s) hp [] \<Longrightarrow> 0 < fuel \<Longrightarrow> list_for_each_entry_safe lk body fuel hp s = Inr s"
  by (cases fuel) (auto simp: list_for_each_entry_safe_def LIST_ELEM_def ring_empty_iff)

subsection \<open>The interface\<close>

text \<open>
  What the rest of the program relies on. The clients of the list know only that a head
  represents a list of elements, and how the operations change it.
\<close>

locale list_store =
  fixes repr :: "'h \<Rightarrow> nat \<Rightarrow> nat list \<Rightarrow> bool"
    and live :: "'h \<Rightarrow> nat set"
    and add :: "nat \<Rightarrow> nat \<Rightarrow> 'h \<Rightarrow> 'h cres"
    and del :: "nat \<Rightarrow> 'h \<Rightarrow> 'h cres"
    and visit :: "nat \<Rightarrow> nat \<Rightarrow> 'h \<Rightarrow> nat list cres"
  assumes add_ok: "repr h hp xs \<Longrightarrow> el \<in> live h \<Longrightarrow> el \<notin> set (hp # xs) \<Longrightarrow>
      \<exists>h'. add hp el h = Inr h' \<and> repr h' hp (el # xs) \<and> live h' = live h"
    and add_frame: "repr h hp xs \<Longrightarrow> el \<in> live h \<Longrightarrow> el \<notin> set (hp # xs) \<Longrightarrow>
      add hp el h = Inr h' \<Longrightarrow> repr h hp2 ys \<Longrightarrow> set (hp2 # ys) \<inter> set (el # hp # xs) = {} \<Longrightarrow>
      repr h' hp2 ys"
    and del_ok: "repr h hp (as @ el # bs) \<Longrightarrow>
      \<exists>h'. del el h = Inr h' \<and> repr h' hp (as @ bs) \<and> live h' = live h"
    and del_frame: "repr h hp (as @ el # bs) \<Longrightarrow> del el h = Inr h' \<Longrightarrow>
      repr h hp2 ys \<Longrightarrow> set (hp2 # ys) \<inter> set (hp # as @ el # bs) = {} \<Longrightarrow> repr h' hp2 ys"
    and visit_ok: "repr h hp xs \<Longrightarrow> length xs < fuel \<Longrightarrow> visit fuel hp h = Inr xs"
    and repr_live: "repr h hp xs \<Longrightarrow> set (hp # xs) \<subseteq> live h \<and> distinct (hp # xs)"
begin

lemma add_all:
  "repr h hp xs \<Longrightarrow> set els \<subseteq> live h \<Longrightarrow> distinct els \<Longrightarrow> set els \<inter> set (hp # xs) = {} \<Longrightarrow>
   \<exists>h'. foldc (add hp) els h = Inr h' \<and> repr h' hp (rev els @ xs) \<and> live h' = live h"
proof (induction els arbitrary: h xs)
  case Nil
  then show ?case by simp
next
  case (Cons e els)
  obtain h1 where h1: "add hp e h = Inr h1" "repr h1 hp (e # xs)" "live h1 = live h"
    using add_ok [OF Cons.prems(1), of e] Cons.prems(2,4) by auto
  have "set els \<subseteq> live h1" "distinct els" "set els \<inter> set (hp # e # xs) = {}"
    using Cons.prems h1(3) by auto
  from Cons.IH [OF h1(2) this] h1 show ?case by simp
qed

lemma del_add:
  assumes "repr h hp xs" "el \<in> live h" "el \<notin> set (hp # xs)"
  shows "\<exists>h'. seq (add hp el h) (del el) = Inr h' \<and> repr h' hp xs"
proof -
  obtain h1 where h1: "add hp el h = Inr h1" "repr h1 hp ([] @ el # xs)"
    using add_ok [OF assms] by auto
  from del_ok [OF h1(2)] h1(1) show ?thesis by auto
qed

lemma del_remove1:
  assumes "repr h hp xs" "el \<in> set xs"
  shows "\<exists>h'. del el h = Inr h' \<and> repr h' hp (remove1 el xs) \<and> live h' = live h"
proof -
  obtain as bs where s: "xs = as @ el # bs" by (meson assms(2) split_list)
  have "distinct xs" using repr_live [OF assms(1)] by simp
  then have "remove1 el xs = as @ bs" by (simp add: s distinct_remove_mid)
  with del_ok assms(1) s show ?thesis by metis
qed

lemma visit_after_add_all:
  assumes "repr h hp []" "set els \<subseteq> live h" "distinct els" "hp \<notin> set els" "length els < fuel"
  shows "seq (foldc (add hp) els h) (visit fuel hp) = Inr (rev els)"
  using add_all [OF assms(1-3)] assms(4,5) visit_ok by fastforce

end

interpretation rings: list_store ring dom LIST_ADD LIST_DEL list_for_each_entry
proof unfold_locales
  fix h :: links and hp el hp2 xs ys h'
  assume r: "ring h hp xs" and e: "el \<in> dom h" "el \<notin> set (hp # xs)"
  show "\<exists>h'. LIST_ADD hp el h = Inr h' \<and> ring h' hp (el # xs) \<and> dom h' = dom h"
    using LIST_ADD_ring [OF r e] by blast
  assume a: "LIST_ADD hp el h = Inr h'" and r2: "ring h hp2 ys"
    and d: "set (hp2 # ys) \<inter> set (el # hp # xs) = {}"
  have "hd (xs @ [hp]) \<in> set (hp # xs)" by (cases xs) auto
  with LIST_ADD_ring [OF r e] a d show "ring h' hp2 ys"
    by (intro ring_frame [OF r2]) auto
next
  fix h :: links and hp as el bs
  assume r: "ring h hp (as @ el # bs)"
  show "\<exists>h'. LIST_DEL el h = Inr h' \<and> ring h' hp (as @ bs) \<and> dom h' = dom h"
    using LIST_DEL_ring [OF r] by blast
next
  fix h :: links and hp as el bs h' hp2 ys
  assume r: "ring h hp (as @ el # bs)" and a: "LIST_DEL el h = Inr h'" and r2: "ring h hp2 ys"
    and d: "set (hp2 # ys) \<inter> set (hp # as @ el # bs) = {}"
  have "hd (bs @ [hp]) \<in> set (hp # bs)" by (cases bs) auto
  moreover have "last (hp # as) \<in> set (hp # as)" by (rule last_in_set) simp
  ultimately have "\<forall>a\<in>set (hp2 # ys). a \<notin> {hd (bs @ [hp]), last (hp # as)}"
    using d by auto
  moreover have "\<forall>a. a \<notin> {hd (bs @ [hp]), last (hp # as)} \<longrightarrow> h' a = h a"
    using LIST_DEL_ring [OF r] a by (metis sum.inject(2))
  ultimately show "ring h' hp2 ys" by (intro ring_frame [OF r2]) metis
next
  fix h :: links and hp xs fuel
  assume r: "ring h hp xs"
  show "length xs < fuel \<Longrightarrow> list_for_each_entry fuel hp h = Inr xs"
    using r by (rule list_for_each_entry_ring)
  show "set (hp # xs) \<subseteq> dom h \<and> distinct (hp # xs)"
    using ring_dom [OF r] r by (simp add: ring_def)
qed

subsection \<open>Properties\<close>

text \<open>C31: Starting from an empty list, adding elements one after the other with \<open>LIST_ADD\<close> and walking
  the list with \<open>list_for_each_entry\<close> visits exactly those elements, the last one added first.\<close>

theorem list_add_then_visit:
  assumes "ring h hp []" "set els \<subseteq> dom h" "distinct els" "hp \<notin> set els" "length els < fuel"
  shows "seq (foldc (LIST_ADD hp) els h) (list_for_each_entry fuel hp) = Inr (rev els)"
  by (rule rings.visit_after_add_all [OF assms])

definition three_nodes :: links where
  "three_nodes = [0 \<mapsto> \<lparr>nxt = 0, prv = 0\<rparr>, 1 \<mapsto> \<lparr>nxt = 7, prv = 7\<rparr>, 2 \<mapsto> \<lparr>nxt = 7, prv = 7\<rparr>]"

lemma three_nodes_ring: "ring three_nodes 0 []"
  by (simp add: three_nodes_def ring_empty_iff nx_def pv_def)

theorem list_add_then_visit_witness:
  "seq (foldc (LIST_ADD 0) [1, 2] three_nodes) (list_for_each_entry 3 0) = Inr [2, 1]"
  using list_add_then_visit [OF three_nodes_ring, of "[1, 2]" 3] by (simp add: three_nodes_def)

text \<open>\<open>LIST_DEL\<close> on any element of a list unlinks that element and keeps the others in order.\<close>

theorem list_del_unlinks:
  assumes "ring h hp xs" "el \<in> set xs"
  shows "\<exists>h'. LIST_DEL el h = Inr h' \<and> ring h' hp (remove1 el xs) \<and> dom h' = dom h"
  by (rule rings.del_remove1 [OF assms])

definition two_ring :: links where
  "two_ring = [0 \<mapsto> \<lparr>nxt = 1, prv = 2\<rparr>, 1 \<mapsto> \<lparr>nxt = 2, prv = 0\<rparr>, 2 \<mapsto> \<lparr>nxt = 0, prv = 1\<rparr>]"

theorem list_del_unlinks_witness:
  "\<exists>h'. LIST_DEL 1 two_ring = Inr h' \<and> ring h' 0 [2]"
  using list_del_unlinks [of two_ring 0 "[1, 2]" 1]
  by (auto simp: two_ring_def ring_def nx_def pv_def)

text \<open>\<open>LIST_SPLICE\<close> moves the elements of one list in front of those of another, in order, whatever
  the two lists are, the empty ones included.\<close>

theorem list_splice_appends:
  assumes "ring h new xs" "ring h old ys" "set (new # xs) \<inter> set (old # ys) = {}"
  shows "\<exists>h'. LIST_SPLICE new old h = Inr h' \<and> ring h' new (ys @ xs) \<and> dom h' = dom h"
  by (rule LIST_SPLICE_ring [OF assms])

theorem list_splice_appends_witness:
  "\<exists>h'. LIST_SPLICE 5 0 (two_ring(5 \<mapsto> \<lparr>nxt = 6, prv = 6\<rparr>, 6 \<mapsto> \<lparr>nxt = 5, prv = 5\<rparr>)) = Inr h' \<and> ring h' 5 [1, 2, 6]"
  using list_splice_appends [of "two_ring(5 \<mapsto> \<lparr>nxt = 6, prv = 6\<rparr>, 6 \<mapsto> \<lparr>nxt = 5, prv = 5\<rparr>)" 5 "[6]" 0 "[1, 2]"]
  by (auto simp: two_ring_def ring_def nx_def pv_def)

end
