(* ===== verification/World.thy ===== *)
theory World
  imports CStrings RingList
begin

section \<open>The state of the proxy and the operating system around it\<close>

text \<open>
  The structures of the headers \<open>socket.h\<close>, \<open>client.h\<close>, \<open>server.h\<close>, \<open>session.h\<close> and
  \<open>option.h\<close> as records, one map of live objects per structure, the list nodes of
  \<open>RingList\<close>, and the operating system.

  The operating system is not part of the repository. Its answers come from a script:
  the \<open>n\<close>-th system call of a run is answered by the \<open>n\<close>-th element of the list, a function from the
  call to the answer. A theorem for all scripts is a theorem for all behaviours of the system. When
  the script is used up the call has not returned yet, which is the outcome \<open>Blocked\<close>. What
  the documentation promises whatever the script says is built into the calls below: \<open>read\<close> and
  \<open>write\<close> transfer at most the bytes asked for, a new descriptor is not one that is open, closing a
  descriptor takes it out of the epoll set, and (if \<open>strict_epoll\<close>) epoll refuses to add a
  descriptor it already has.
\<close>

subsection \<open>Addresses\<close>

text \<open>An IPv4 address is its four bytes in memory (network) order.\<close>

type_synonym in_addr = "8 word \<times> 8 word \<times> 8 word \<times> 8 word"

record sockaddr =
  sin_family :: nat
  sin_port :: "16 word"
  sin_addr :: in_addr

definition AF_INET :: nat where "AF_INET = 2"

definition zero_addr :: sockaddr where
  "zero_addr = \<lparr>sin_family = 0, sin_port = 0, sin_addr = (0, 0, 0, 0)\<rparr>"

text \<open>Byte order of ports: the 16-bit value with its bytes exchanged, both ways.\<close>

definition htons :: "16 word \<Rightarrow> 16 word" where
  "htons p = of_nat (unat p mod 256 * 256 + unat p div 256)"

abbreviation ntohs :: "16 word \<Rightarrow> 16 word" where
  "ntohs \<equiv> htons"

lemma htons_htons [simp]: "htons (htons p) = p"
proof -
  define q r where "q = unat p div 256" and "r = unat p mod 256"
  have "unat p < 65536" using unsigned_less [of p] by simp
  then have q: "q < 256" and r: "r < 256" and p: "q * 256 + r = unat p"
    by (auto simp: q_def r_def)
  have "htons p = of_nat (r * 256 + q)" by (simp only: htons_def q_def r_def)
  moreover have "(r * 256 + q) mod 2 ^ 16 = r * 256 + q" using q r by simp
  ultimately have h: "unat (htons p) = r * 256 + q" by (simp only: unat_of_nat len_num1 len_bit0 len_num0) simp
  have "(r * 256 + q) mod 256 = q" "(r * 256 + q) div 256 = r" using q by simp_all
  then have "htons (htons p) = of_nat (unat p)"
    using h p by (metis htons_def)
  then show ?thesis by simp
qed

subsection \<open>Structures\<close>

text \<open>\<open>struct socket\<close>; \<open>sk_buffer\<close> is the block \<open>buffer\<close> points to, \<open>None\<close> for NULL.\<close>

record socket =
  sk_fd :: int
  sk_buffer :: "char list option"
  sk_buffer_size :: nat
  sk_buffer_used :: nat
  sk_address :: sockaddr

record client =
  cl_address :: sockaddr
  cl_command_socket :: ptr
  cl_data_socket :: ptr

record server =
  sv_address :: sockaddr
  sv_command_socket :: ptr
  sv_data_socket :: ptr
  sv_connection_socket :: ptr

text \<open>The \<open>struct list\<close> member of a session is the node at the session's address. The host address
  is \<open>None\<close> while nothing has been stored in it.\<close>

record session =
  ss_client :: ptr
  ss_server :: ptr
  host_address :: "sockaddr option"

text \<open>\<open>struct option\<close>; the two list heads are given by their addresses.\<close>

record option_s =
  opt_server_list :: ptr
  opt_session_list :: ptr
  opt_thread_pool :: ptr
  opt_epoll_fd :: int
  opt_proxy_socket :: ptr

subsection \<open>System calls\<close>

datatype errno = EINTR | EINPROGRESS | EAGAIN | ENOERR | EOTHER

datatype call =
    Malloc | Setsockopt int | Fcntl_getfl int | Fcntl_setfl int | Socket
  | Bind int sockaddr | Listen int int | Connect int sockaddr | Accept int | Getsockname int
  | Epoll_create | Epoll_add int int | Epoll_del int int | Epoll_wait int
  | Read int nat | Write int "char list" | Shutdown int | Close int

record epoll_event =
  ev_fd :: int
  ev_in :: bool
  ev_out :: bool

record reply =
  rv :: int
  err :: errno
  bytes :: "char list"
  sname :: sockaddr
  evs :: "epoll_event list"

text \<open>
  \<open>sent\<close>: the bytes the system has accepted on each descriptor since it was opened. \<open>trace\<close>: the
  calls made, the newest first. \<open>brk\<close>: every object's address is below it.
\<close>

record world =
  socks :: "nat \<Rightarrow> socket option"
  clients :: "nat \<Rightarrow> client option"
  servers :: "nat \<Rightarrow> server option"
  sessions :: "nat \<Rightarrow> session option"
  saddrs :: "nat \<Rightarrow> sockaddr option"
  links :: links
  goption :: "option_s option"
  brk :: nat
  blocks :: nat
  script :: "(call \<Rightarrow> reply) list"
  strict_epoll :: bool
  open_fds :: "int set"
  epoll_regs :: "int set"
  sent :: "int \<Rightarrow> char list"
  trace :: "call list"

text \<open>The state a process starts in: nothing is allocated, no descriptor of its own is open.\<close>

definition boot :: "(call \<Rightarrow> reply) list \<Rightarrow> world" where
  "boot rs = \<lparr>socks = Map.empty, clients = Map.empty, servers = Map.empty, sessions = Map.empty,
     saddrs = Map.empty, links = Map.empty, goption = None, brk = 0, blocks = 0, script = rs,
     strict_epoll = True, open_fds = {}, epoll_regs = {}, sent = (\<lambda>_. []), trace = []\<rparr>"

text \<open>Answers: a number and nothing else, and a system that always succeeds.\<close>

definition answer :: "int \<Rightarrow> call \<Rightarrow> reply" where
  "answer n c = \<lparr>rv = n, err = ENOERR, bytes = [], sname = zero_addr, evs = []\<rparr>"

definition sys :: "call \<Rightarrow> world \<Rightarrow> (reply \<times> world) cres" where
  "sys c w = (case script w of
      [] \<Rightarrow> Inl Blocked
    | r # rs \<Rightarrow> Inr (r c, w\<lparr>script := rs, trace := c # trace w\<rparr>))"

text \<open>Calls whose only answer is success or failure.\<close>

definition sys_rc :: "call \<Rightarrow> world \<Rightarrow> (int \<times> world) cres" where
  "sys_rc c w = seq (sys c w) (\<lambda>(r, w). Inr (rv r, w))"

text \<open>Does an allocation succeed?\<close>

definition malloc :: "world \<Rightarrow> (bool \<times> world) cres" where
  "malloc w = seq (sys Malloc w) (\<lambda>(r, w). Inr (rv r \<noteq> 0, w))"

text \<open>\<open>socket\<close>, \<open>accept\<close>, \<open>epoll_create\<close>: a descriptor that was not open, or a failure.\<close>

definition new_fd :: "call \<Rightarrow> world \<Rightarrow> (int \<times> reply \<times> world) cres" where
  "new_fd c w = seq (sys c w) (\<lambda>(r, w).
     if rv r < 0 \<or> rv r \<in> open_fds w then Inr (-1, r, w)
     else Inr (rv r, r, w\<lparr>open_fds := insert (rv r) (open_fds w), sent := (sent w)(rv r := [])\<rparr>))"

definition shutdown_fd :: "int \<Rightarrow> world \<Rightarrow> world" where
  "shutdown_fd f w = w\<lparr>trace := Shutdown f # trace w\<rparr>"

definition close_fd :: "int \<Rightarrow> world \<Rightarrow> world" where
  "close_fd f w = w\<lparr>open_fds := open_fds w - {f}, epoll_regs := epoll_regs w - {f},
     trace := Close f # trace w\<rparr>"

definition epoll_ctl_add :: "int \<Rightarrow> int \<Rightarrow> world \<Rightarrow> (int \<times> world) cres" where
  "epoll_ctl_add e f w = seq (sys (Epoll_add e f) w) (\<lambda>(r, w).
     if rv r < 0 \<or> (strict_epoll w \<and> f \<in> epoll_regs w) then Inr (-1, w)
     else Inr (0, w\<lparr>epoll_regs := insert f (epoll_regs w)\<rparr>))"

definition epoll_ctl_del :: "int \<Rightarrow> int \<Rightarrow> world \<Rightarrow> (int \<times> world) cres" where
  "epoll_ctl_del e f w = seq (sys (Epoll_del e f) w) (\<lambda>(r, w).
     if rv r < 0 then Inr (-1, w) else Inr (0, w\<lparr>epoll_regs := epoll_regs w - {f}\<rparr>))"

definition getsockname :: "int \<Rightarrow> world \<Rightarrow> (int \<times> sockaddr \<times> world) cres" where
  "getsockname f w = seq (sys (Getsockname f) w) (\<lambda>(r, w). Inr (rv r, sname r, w))"

text \<open>\<open>read\<close> returns the number of bytes it stored, at most \<open>n\<close>; \<open>write\<close> the number it took.\<close>

definition sys_read :: "int \<Rightarrow> nat \<Rightarrow> world \<Rightarrow> (int \<times> char list \<times> errno \<times> world) cres" where
  "sys_read f n w = seq (sys (Read f n) w) (\<lambda>(r, w).
     if rv r < 0 then Inr (-1, [], err r, w)
     else (let bs = take n (bytes r) in Inr (int (length bs), bs, err r, w)))"

definition sys_write :: "int \<Rightarrow> char list \<Rightarrow> world \<Rightarrow> (int \<times> errno \<times> world) cres" where
  "sys_write f data w = seq (sys (Write f data) w) (\<lambda>(r, w).
     if rv r < 0 then Inr (-1, err r, w)
     else (let n = min (nat (rv r)) (length data)
           in Inr (int n, err r, w\<lparr>sent := (sent w)(f := sent w f @ take n data)\<rparr>)))"

lemmas sys_defs = sys_rc_def malloc_def new_fd_def epoll_ctl_add_def epoll_ctl_del_def
  getsockname_def sys_read_def sys_write_def

subsection \<open>Objects\<close>

text \<open>Loading, storing, allocating and freeing the structures.\<close>

definition load_socket :: "ptr \<Rightarrow> world \<Rightarrow> socket cres" where
  "load_socket p w = deref (socks w) p"

definition load_client :: "ptr \<Rightarrow> world \<Rightarrow> client cres" where
  "load_client p w = deref (clients w) p"

definition load_server :: "ptr \<Rightarrow> world \<Rightarrow> server cres" where
  "load_server p w = deref (servers w) p"

definition load_session :: "ptr \<Rightarrow> world \<Rightarrow> session cres" where
  "load_session p w = deref (sessions w) p"

fun addr_of :: "ptr \<Rightarrow> nat cres" where
  "addr_of Null = Inl (UB Null_deref)"
| "addr_of Wild = Inl (UB Uninit_read)"
| "addr_of (Ref a) = Inr a"

text \<open>Stores go through a pointer that has to point to a live object.\<close>

definition upd_socket :: "ptr \<Rightarrow> (socket \<Rightarrow> socket) \<Rightarrow> world \<Rightarrow> world cres" where
  "upd_socket p f w = seq (load_socket p w) (\<lambda>s. seq (addr_of p) (\<lambda>a.
     Inr (w\<lparr>socks := (socks w)(a \<mapsto> f s)\<rparr>)))"

definition upd_client :: "ptr \<Rightarrow> (client \<Rightarrow> client) \<Rightarrow> world \<Rightarrow> world cres" where
  "upd_client p f w = seq (load_client p w) (\<lambda>s. seq (addr_of p) (\<lambda>a.
     Inr (w\<lparr>clients := (clients w)(a \<mapsto> f s)\<rparr>)))"

definition upd_server :: "ptr \<Rightarrow> (server \<Rightarrow> server) \<Rightarrow> world \<Rightarrow> world cres" where
  "upd_server p f w = seq (load_server p w) (\<lambda>s. seq (addr_of p) (\<lambda>a.
     Inr (w\<lparr>servers := (servers w)(a \<mapsto> f s)\<rparr>)))"

definition upd_session :: "ptr \<Rightarrow> (session \<Rightarrow> session) \<Rightarrow> world \<Rightarrow> world cres" where
  "upd_session p f w = seq (load_session p w) (\<lambda>s. seq (addr_of p) (\<lambda>a.
     Inr (w\<lparr>sessions := (sessions w)(a \<mapsto> f s)\<rparr>)))"

text \<open>\<open>malloc(sizeof(struct ...))\<close>: NULL, or a new object with the given contents.\<close>

definition alloc_socket :: "socket \<Rightarrow> world \<Rightarrow> (ptr \<times> world) cres" where
  "alloc_socket s w = seq (malloc w) (\<lambda>(ok, w).
     if ok then Inr (Ref (brk w), w\<lparr>socks := (socks w)(brk w \<mapsto> s), brk := Suc (brk w)\<rparr>)
     else Inr (Null, w))"

definition alloc_client :: "client \<Rightarrow> world \<Rightarrow> (ptr \<times> world) cres" where
  "alloc_client s w = seq (malloc w) (\<lambda>(ok, w).
     if ok then Inr (Ref (brk w), w\<lparr>clients := (clients w)(brk w \<mapsto> s), brk := Suc (brk w)\<rparr>)
     else Inr (Null, w))"

definition alloc_server :: "server \<Rightarrow> world \<Rightarrow> (ptr \<times> world) cres" where
  "alloc_server s w = seq (malloc w) (\<lambda>(ok, w).
     if ok then Inr (Ref (brk w), w\<lparr>servers := (servers w)(brk w \<mapsto> s), brk := Suc (brk w)\<rparr>)
     else Inr (Null, w))"

text \<open>Structures with a list member come with a node. Its pointers are indeterminate; both
  functions that allocate such a structure store into them (\<open>LIST_INIT\<close>) before anything reads
  them, so the values given here are never seen.\<close>

definition fresh_node :: node where
  "fresh_node = \<lparr>nxt = 0, prv = 0\<rparr>"

definition alloc_session :: "session \<Rightarrow> world \<Rightarrow> (ptr \<times> world) cres" where
  "alloc_session s w = seq (malloc w) (\<lambda>(ok, w).
     if ok then Inr (Ref (brk w), w\<lparr>sessions := (sessions w)(brk w \<mapsto> s),
       links := (links w)(brk w \<mapsto> fresh_node), brk := Suc (brk w)\<rparr>)
     else Inr (Null, w))"

definition alloc_saddr :: "sockaddr \<Rightarrow> world \<Rightarrow> (ptr \<times> world) cres" where
  "alloc_saddr s w = seq (malloc w) (\<lambda>(ok, w).
     if ok then Inr (Ref (brk w), w\<lparr>saddrs := (saddrs w)(brk w \<mapsto> s),
       links := (links w)(brk w \<mapsto> fresh_node), brk := Suc (brk w)\<rparr>)
     else Inr (Null, w))"

text \<open>\<open>free\<close>: freeing what has been freed already is a double free.\<close>

definition freed :: "(nat \<Rightarrow> 'a option) \<Rightarrow> ptr \<Rightarrow> (nat \<Rightarrow> 'a option) cres" where
  "freed m p = (case p of Null \<Rightarrow> Inr m | Wild \<Rightarrow> Inl (UB Uninit_read)
     | Ref a \<Rightarrow> if m a = None then Inl (UB Double_free) else Inr (m(a := None)))"

definition free_socket :: "ptr \<Rightarrow> world \<Rightarrow> world cres" where
  "free_socket p w = seq (freed (socks w) p) (\<lambda>m. Inr (w\<lparr>socks := m\<rparr>))"

definition free_client :: "ptr \<Rightarrow> world \<Rightarrow> world cres" where
  "free_client p w = seq (freed (clients w) p) (\<lambda>m. Inr (w\<lparr>clients := m\<rparr>))"

definition free_server :: "ptr \<Rightarrow> world \<Rightarrow> world cres" where
  "free_server p w = seq (freed (servers w) p) (\<lambda>m. Inr (w\<lparr>servers := m\<rparr>))"

text \<open>Freeing a structure frees the list node in it.\<close>

definition free_saddr :: "nat \<Rightarrow> world \<Rightarrow> world cres" where
  "free_saddr a w = seq (freed (saddrs w) (Ref a)) (\<lambda>m.
     Inr (w\<lparr>saddrs := m, links := (links w)(a := None)\<rparr>))"

text \<open>Temporary blocks are only counted: \<open>blocks\<close> is the number of those not freed.\<close>

definition malloc_block :: "world \<Rightarrow> (bool \<times> world) cres" where
  "malloc_block w = seq (malloc w) (\<lambda>(ok, w).
     Inr (ok, if ok then w\<lparr>blocks := Suc (blocks w)\<rparr> else w))"

definition free_block :: "world \<Rightarrow> world" where
  "free_block w = w\<lparr>blocks := blocks w - 1\<rparr>"

lemmas object_defs = load_socket_def load_client_def load_server_def load_session_def
  upd_socket_def upd_client_def upd_server_def upd_session_def alloc_socket_def alloc_client_def
  alloc_server_def alloc_session_def alloc_saddr_def free_socket_def free_client_def
  free_server_def free_saddr_def malloc_block_def free_block_def

text \<open>The list macros on the links of a world.\<close>

definition on_links :: "(links \<Rightarrow> links cres) \<Rightarrow> world \<Rightarrow> world cres" where
  "on_links f w = seq (f (links w)) (\<lambda>h. Inr (w\<lparr>links := h\<rparr>))"

definition ask_links :: "(links \<Rightarrow> 'a cres) \<Rightarrow> world \<Rightarrow> 'a cres" where
  "ask_links f w = f (links w)"

text \<open>\<open>global_option->epoll_fd\<close>.\<close>

definition global_epoll_fd :: "world \<Rightarrow> int cres" where
  "global_epoll_fd w = (case goption w of None \<Rightarrow> Inl (UB Null_deref) | Some g \<Rightarrow> Inr (opt_epoll_fd g))"

definition fd_of :: "ptr \<Rightarrow> world \<Rightarrow> int cres" where
  "fd_of p w = seq (load_socket p w) (\<lambda>s. Inr (sk_fd s))"

subsection \<open>What the system calls keep\<close>

text \<open>The part of the state that the program owns and no system call changes.\<close>

definition same_mem :: "world \<Rightarrow> world \<Rightarrow> bool" where
  "same_mem w w' \<longleftrightarrow> socks w' = socks w \<and> clients w' = clients w \<and> servers w' = servers w \<and>
     sessions w' = sessions w \<and> saddrs w' = saddrs w \<and> links w' = links w \<and>
     goption w' = goption w \<and> brk w' = brk w \<and> blocks w' = blocks w \<and>
     strict_epoll w' = strict_epoll w"

lemma same_mem_refl [simp]: "same_mem w w"
  by (simp add: same_mem_def)

lemma same_mem_trans: "same_mem w w1 \<Longrightarrow> same_mem w1 w2 \<Longrightarrow> same_mem w w2"
  by (simp add: same_mem_def)

text \<open>What the operations on sockets leave alone: every object that is not a socket.\<close>

definition other_objects :: "world \<Rightarrow> world \<Rightarrow> bool" where
  "other_objects w w' \<longleftrightarrow> clients w' = clients w \<and> servers w' = servers w \<and> sessions w' = sessions w \<and>
     saddrs w' = saddrs w \<and> links w' = links w \<and> goption w' = goption w \<and> blocks w' = blocks w \<and>
     strict_epoll w' = strict_epoll w"

lemma other_objects_refl [simp]: "other_objects w w"
  by (simp add: other_objects_def)

lemma other_objects_trans: "other_objects w w1 \<Longrightarrow> other_objects w1 w2 \<Longrightarrow> other_objects w w2"
  by (simp add: other_objects_def)

lemma gives_sys:
  "gives (sys c w) Q \<longleftrightarrow>
     (\<forall>r rs. script w = r # rs \<longrightarrow> Q (r c, w\<lparr>script := rs, trace := c # trace w\<rparr>))"
  by (auto simp: sys_def split: list.splits)

lemma gives_deref:
  "gives (deref m p) Q \<longleftrightarrow> (\<forall>a x. p = Ref a \<longrightarrow> m a = Some x \<longrightarrow> Q x)"
  by (cases p) (auto split: option.split)

lemma gives_nonnull: "gives (nonnull p) Q \<longleftrightarrow> (p = Null \<longrightarrow> Q False) \<and> (\<forall>a. p = Ref a \<longrightarrow> Q True)"
  by (cases p) auto

lemma gives_addr_of: "gives (addr_of p) Q \<longleftrightarrow> (\<forall>a. p = Ref a \<longrightarrow> Q a)"
  by (cases p) auto

lemma gives_freed: "gives (freed m p) Q \<longleftrightarrow> (p = Null \<longrightarrow> Q m) \<and> (\<forall>a. p = Ref a \<longrightarrow> m a \<noteq> None \<longrightarrow> Q (m(a := None)))"
  by (cases p) (auto simp: freed_def)

lemma gives_on_links: "gives (on_links f w) Q \<longleftrightarrow> (\<forall>h. f (links w) = Inr h \<longrightarrow> Q (w\<lparr>links := h\<rparr>))"
  by (cases "f (links w)") (auto simp: on_links_def)

lemma gives_ask_links: "gives (ask_links f w) Q \<longleftrightarrow> (\<forall>x. f (links w) = Inr x \<longrightarrow> Q x)"
  by (cases "f (links w)") (auto simp: ask_links_def)

lemma gives_case_option:
  "gives (case v of None \<Rightarrow> Inl e | Some x \<Rightarrow> f x) Q \<longleftrightarrow> (\<forall>x. v = Some x \<longrightarrow> gives (f x) Q)"
  by (cases v) auto

lemmas gives_prims = gives_case_option gives_ask_links gives_sys gives_deref gives_nonnull gives_addr_of gives_freed gives_on_links gives_if

lemma sys_ends [ends_intro]:
  "(\<And>r rs. script w = r # rs \<Longrightarrow> Q (r c, w\<lparr>script := rs, trace := c # trace w\<rparr>)) \<Longrightarrow> ends (sys c w) Q"
  by (simp add: sys_def split: list.split)

lemma sys_Inr:
  "sys c w = Inr (r, w') \<longleftrightarrow>
     (\<exists>f rs. script w = f # rs \<and> r = f c \<and> w' = w\<lparr>script := rs, trace := c # trace w\<rparr>)"
  by (auto simp: sys_def split: list.splits)

lemma sys_script_less: "sys c w = Inr (r, w') \<Longrightarrow> length (script w') < length (script w)"
  by (auto simp: sys_Inr)

lemma sys_read_script_less:
  "sys_read f n w = Inr (k, bs, e, w') \<Longrightarrow> length (script w') < length (script w)"
  by (cases "script w") (auto simp: sys_read_def sys_def Let_def split: if_splits)

lemma sys_write_script_less:
  "sys_write f d w = Inr (k, e, w') \<Longrightarrow> length (script w') < length (script w)"
  by (cases "script w") (auto simp: sys_write_def sys_def Let_def split: if_splits)

end
