(* ===== verification/Packet.thy ===== *)
theory Packet
  imports World
begin

section \<open>packet.c: reading and writing whole packets\<close>

text \<open>
  \<open>src/packet.c\<close>. The single calls retry while they are interrupted; the full ones go on until
  everything is transferred. Each attempt uses one answer of the script, so the retry loops
  end with the script; the loops over the rest of a packet end because the rest gets shorter.
  The diagnostic \<open>printf\<close>s are left out.
\<close>

datatype packet_error_type =
  PACKET_SUCCESS | PACKET_INVALID_SOCKET | PACKET_INVALID_BUFFER | PACKET_INVALID_BUFFER_SIZE

function packet_read :: "int \<Rightarrow> nat \<Rightarrow> world \<Rightarrow> (int \<times> char list \<times> world) cres" where
  "packet_read f sz w =
     seq (sys_read f sz w) (\<lambda>(n, bs, error, w).
       let ret = c_int n in
       if ret < 0 \<and> error = EINTR then packet_read f sz w else Inr (ret, bs, w))"
  by pat_completeness auto
termination
  by (relation "measure (\<lambda>(f, sz, w). length (script w))") (auto dest: sys_read_script_less)

function packet_write :: "int \<Rightarrow> char list \<Rightarrow> world \<Rightarrow> (int \<times> world) cres" where
  "packet_write f data w =
     seq (sys_write f data w) (\<lambda>(n, error, w).
       let ret = c_int n in
       if ret < 0 \<and> error = EINTR then packet_write f data w else Inr (ret, w))"
  by pat_completeness auto
termination
  by (relation "measure (\<lambda>(f, data, w). length (script w))") (auto dest: sys_write_script_less)

declare packet_read.simps [simp del] packet_write.simps [simp del]

text \<open>
  \<open>packet_full_read\<close>: \<open>stored\<close> are the bytes that are in the buffer already, \<open>read_size\<close> of them.
  The result has the bytes in the buffer as well as the returned value.
\<close>

function full_read_loop ::
  "int \<Rightarrow> char list \<Rightarrow> int \<Rightarrow> nat \<Rightarrow> world \<Rightarrow> (int \<times> char list \<times> world) cres" where
  "full_read_loop f stored read_size sz w =
     seq (packet_read f sz w) (\<lambda>(ret, bs, w).
       if ret < 0 then Inr (ret, stored, w)
       else if ret = 0 then Inr (read_size, stored, w)
       else if ret > c_int (int sz) then Inr (ret, stored @ bs, w)
       else (let read_size = read_size + ret; sz = sz - nat ret in
             if sz = 0 then Inr (read_size, stored @ bs, w)
             else full_read_loop f (stored @ bs) read_size sz w))"
  by pat_completeness auto
termination
  by (relation "measure (\<lambda>(f, stored, n, sz, w). sz)") auto

definition packet_full_read :: "int \<Rightarrow> nat \<Rightarrow> world \<Rightarrow> (int \<times> char list \<times> world) cres" where
  "packet_full_read socket_fd sz w = full_read_loop socket_fd [] 0 sz w"

text \<open>\<open>packet_full_write\<close>: \<open>data\<close> is what is left of the packet.\<close>

function full_write_loop :: "int \<Rightarrow> char list \<Rightarrow> int \<Rightarrow> world \<Rightarrow> (int \<times> world) cres" where
  "full_write_loop f data written_size w =
     seq (packet_write f data w) (\<lambda>(ret, w).
       if ret < 0 then Inr (ret, w)
       else if ret = 0 then Inr (written_size, w)
       else if ret > c_int (int (length data)) then Inr (ret, w)
       else (let written_size = written_size + ret; data = drop (nat ret) data in
             if length data = 0 then Inr (written_size, w)
             else full_write_loop f data written_size w))"
  by pat_completeness auto
termination
  by (relation "measure (\<lambda>(f, data, n, w). length data)") auto

declare full_read_loop.simps [simp del] full_write_loop.simps [simp del]

definition packet_full_write :: "int \<Rightarrow> char list \<Rightarrow> nat \<Rightarrow> world \<Rightarrow> (int \<times> world) cres" where
  "packet_full_write socket_fd buf sz w =
     (if length buf < sz then Inl (UB Out_of_bounds)
      else full_write_loop socket_fd (take sz buf) 0 w)"

subsection \<open>What a write does to the world\<close>

text \<open>The only effect: the bytes \<open>bs\<close> went out on \<open>f\<close>.\<close>

definition wrote :: "int \<Rightarrow> char list \<Rightarrow> world \<Rightarrow> world \<Rightarrow> bool" where
  "wrote f bs w w' \<longleftrightarrow>
     (\<exists>sc tr. w' = w\<lparr>script := sc, trace := tr, sent := (sent w)(f := sent w f @ bs)\<rparr>)"

lemma wrote_Nil [simp]: "wrote f [] w w"
proof -
  have "w = w\<lparr>script := script w, trace := trace w, sent := (sent w)(f := sent w f @ [])\<rparr>" by (cases w) simp
  then show ?thesis unfolding wrote_def by blast
qed

lemma wroteI:
  "w' = w\<lparr>script := sc, trace := tr, sent := (sent w)(f := sent w f @ bs)\<rparr> \<Longrightarrow> wrote f bs w w'"
  unfolding wrote_def by blast

lemma wrote_trans:
  assumes "wrote f xs w w1" "wrote f ys w1 w2"
  shows "wrote f (xs @ ys) w w2"
proof -
  obtain sc tr where "w2 = w1\<lparr>script := sc, trace := tr, sent := (sent w1)(f := sent w1 f @ ys)\<rparr>"
    using assms(2) unfolding wrote_def by blast
  with assms(1) show ?thesis
    by (auto simp: wrote_def [of f xs] intro!: wroteI [where sc = sc and tr = tr])
qed

lemma wrote_same_mem: "wrote f bs w w' \<Longrightarrow> same_mem w w'"
  by (auto simp: wrote_def same_mem_def)

lemma sys_write_cases:
  obtains "sys_write f data w = Inl Blocked"
  | e w' where "sys_write f data w = Inr (-1, e, w')" "wrote f [] w w'"
  | n e w' where "sys_write f data w = Inr (int n, e, w')" "n \<le> length data"
      "wrote f (take n data) w w'"
proof (cases "script w")
  case Nil
  then show ?thesis using that(1) by (simp add: sys_write_def sys_def)
next
  case (Cons r rs)
  let ?w = "w\<lparr>script := rs, trace := Write f data # trace w\<rparr>"
  have w: "wrote f [] w ?w" unfolding wrote_def by (rule exI [of _ rs], rule exI) simp
  show ?thesis
  proof (cases "rv (r (Write f data)) < 0")
    case True
    then show ?thesis using that(2) w by (simp add: sys_write_def sys_def Cons)
  next
    case False
    have "wrote f bs w (?w\<lparr>sent := (sent w)(f := sent w f @ bs)\<rparr>)" for bs
      unfolding wrote_def by (rule exI [of _ rs], rule exI) simp
    then show ?thesis
      using that(3) [of "min (nat (rv (r (Write f data)))) (length data)"] False
      by (simp add: sys_write_def sys_def Cons Let_def)
  qed
qed

definition write_post :: "int \<Rightarrow> char list \<Rightarrow> world \<Rightarrow> int \<times> world \<Rightarrow> bool" where
  "write_post f data w = (\<lambda>(ret, w'). (ret < 0 \<and> wrote f [] w w') \<or>
     (0 \<le> ret \<and> nat ret \<le> length data \<and> wrote f (take (nat ret) data) w w'))"

lemma packet_write_ends:
  assumes "length data < 2 ^ 31"
  shows "ends (packet_write f data w) (write_post f data w)"
  using assms
proof (induction f data w rule: packet_write.induct)
  case step: (1 f data w)
  have m: "c_int (-1) = -1" by (rule c_int_id) simp_all
  show ?case
  proof (cases rule: sys_write_cases [of f data w])
    case 1
    then show ?thesis by (subst packet_write.simps) simp
  next
    case (2 e w')
    have "ends (packet_write f data w') (write_post f data w)" if "e = EINTR"
    proof (rule ends_mono)
      show "ends (packet_write f data w') (write_post f data w')"
        using step.IH [OF 2(1) refl refl refl] step.prems m that by simp
      show "write_post f data w' x \<Longrightarrow> write_post f data w x" for x
        using wrote_trans [OF 2(2)] by (auto simp: write_post_def split: prod.splits)
    qed
    then show ?thesis
      by (subst packet_write.simps) (simp add: 2 m write_post_def)
  next
    case (3 n e w')
    have "c_int (int n) = int n" by (rule c_int_small) (use 3(2) step.prems in auto)
    with 3 show ?thesis by (subst packet_write.simps) (simp add: write_post_def)
  qed
qed

text \<open>After a full write: a prefix of the data went out, and a result that is no error counts it.\<close>

definition full_write_post :: "int \<Rightarrow> char list \<Rightarrow> int \<Rightarrow> world \<Rightarrow> int \<times> world \<Rightarrow> bool" where
  "full_write_post f data n w = (\<lambda>(ret, w'). \<exists>k \<le> length data.
     wrote f (take k data) w w' \<and> (0 \<le> ret \<longrightarrow> ret = n + int k \<or> n < 0))"

lemma full_write_postI:
  "k \<le> length data \<Longrightarrow> wrote f (take k data) w w' \<Longrightarrow> ret < 0 \<or> ret = n + int k \<Longrightarrow>
   full_write_post f data n w (ret, w')"
  by (auto simp: full_write_post_def)

lemma full_write_post_step:
  assumes "k \<le> length data" "wrote f (take k data) w w'"
    and "full_write_post f (drop k data) (n + int k) w' x"
  shows "full_write_post f data n w x"
proof -
  obtain ret w'' j where x: "x = (ret, w'')" and j: "j \<le> length data - k"
    "wrote f (take j (drop k data)) w' w''" "0 \<le> ret \<longrightarrow> ret = n + int k + int j \<or> n + int k < 0"
    using assms(3) by (cases x) (auto simp: full_write_post_def)
  have "wrote f (take (k + j) data) w w''"
    using wrote_trans [OF assms(2) j(2)] by (simp add: take_add)
  moreover have "k + j \<le> length data" "0 \<le> ret \<longrightarrow> ret = n + int (k + j) \<or> n < 0"
    using j assms(1) by auto
  ultimately show ?thesis unfolding x full_write_post_def by blast
qed

lemma full_write_loop_ends:
  assumes "length data < 2 ^ 31"
  shows "ends (full_write_loop f data n w) (full_write_post f data n w)"
  using assms
proof (induction "length data" arbitrary: data n w rule: less_induct)
  case less
  have c: "c_int (int (length data)) = int (length data)" using less.prems by simp
  have step: "ends (if ret < 0 then Inr (ret, w')
       else if ret = 0 then Inr (n, w')
       else if ret > c_int (int (length data)) then Inr (ret, w')
       else (let written_size = n + ret; data = drop (nat ret) data in
             if length data = 0 then Inr (written_size, w')
             else full_write_loop f data written_size w')) (full_write_post f data n w)"
    if p: "write_post f data w (ret, w')" for ret w'
  proof (cases "0 < ret")
    case True
    then have k: "nat ret \<le> length data" "wrote f (take (nat ret) data) w w'"
      using p by (auto simp: write_post_def)
    have "full_write_post f data n w (n + ret, w')"
      by (rule full_write_postI [OF k]) (use True in simp)
    moreover have "ends (full_write_loop f (drop (nat ret) data) (n + ret) w') (full_write_post f data n w)"
    proof (rule ends_mono)
      show "ends (full_write_loop f (drop (nat ret) data) (n + ret) w')
          (full_write_post f (drop (nat ret) data) (n + int (nat ret)) w')"
        using less.hyps [of "drop (nat ret) data" "n + ret" w'] less.prems k(1) True by simp
    qed (rule full_write_post_step [OF k])
    ultimately show ?thesis
      using True k(1) by (auto simp: c Let_def)
  next
    case False
    then have "wrote f (take 0 data) w w'" using p by (auto simp: write_post_def)
    then show ?thesis
      using False by (auto intro!: full_write_postI [of 0])
  qed
  show ?case
  proof (subst full_write_loop.simps, simp only: ends_seq, rule ends_mono [OF packet_write_ends [OF less.prems]])
    fix x assume "write_post f data w x"
    then show "ends (case x of (ret, w') \<Rightarrow> if ret < 0 then Inr (ret, w')
       else if ret = 0 then Inr (n, w')
       else if ret > c_int (int (length data)) then Inr (ret, w')
       else (let written_size = n + ret; data = drop (nat ret) data in
             if length data = 0 then Inr (written_size, w')
             else full_write_loop f data written_size w')) (full_write_post f data n w)"
      by (cases x) (simp only: prod.case step)
  qed
qed

subsection \<open>Progress\<close>

text \<open>Answers to a write that take at least a byte, and answers that were interrupted.\<close>

definition takes_some :: "int \<Rightarrow> (call \<Rightarrow> reply) \<Rightarrow> bool" where
  "takes_some f r \<longleftrightarrow> (\<forall>d. 0 < rv (r (Write f d)))"

definition interrupted :: "int \<Rightarrow> (call \<Rightarrow> reply) \<Rightarrow> bool" where
  "interrupted f r \<longleftrightarrow> (\<forall>d. rv (r (Write f d)) < 0 \<and> err (r (Write f d)) = EINTR)"

lemma packet_write_progress:
  assumes "script w = is @ r # rs" "\<forall>i \<in> set is. interrupted f i" "takes_some f r"
    and "data \<noteq> []" "length data < 2 ^ 31"
  shows "\<exists>k w'. packet_write f data w = Inr (int k, w') \<and> 0 < k \<and> k \<le> length data \<and> script w' = rs
    \<and> wrote f (take k data) w w'"
  using assms(1,2)
proof (induction "is" arbitrary: w)
  case Nil
  define k where "k = min (nat (rv (r (Write f data)))) (length data)"
  have "0 < rv (r (Write f data))" using assms(3) by (simp add: takes_some_def)
  then have k: "0 < k" "k \<le> length data" "\<not> rv (r (Write f data)) < 0" using assms(4) by (auto simp: k_def)
  have c: "c_int (int k) = int k" using k assms(5) by (intro c_int_small) auto
  define w' where "w' = w\<lparr>script := rs, trace := Write f data # trace w,
    sent := (sent w)(f := sent w f @ take k data)\<rparr>"
  have call: "sys_write f data w = Inr (int k, err (r (Write f data)), w')"
    using Nil k by (simp add: sys_write_def sys_def Let_def k_def w'_def)
  have "wrote f (take k data) w w'" unfolding w'_def by (rule wroteI) simp
  moreover have "packet_write f data w = Inr (int k, w')"
    by (subst packet_write.simps) (simp add: call c)
  moreover have "script w' = rs" by (simp add: w'_def)
  ultimately show ?case using k by blast
next
  case (Cons i "is")
  define w1 where "w1 = w\<lparr>script := is @ r # rs, trace := Write f data # trace w\<rparr>"
  have "interrupted f i" using Cons.prems by simp
  then have call: "sys_write f data w = Inr (-1, EINTR, w1)"
    using Cons.prems by (simp add: sys_write_def sys_def w1_def interrupted_def)
  have w: "wrote f [] w w1" unfolding w1_def by (rule wroteI) simp
  have m: "c_int (-1) = -1" by (rule c_int_id) simp_all
  have again: "packet_write f data w = packet_write f data w1"
    by (subst packet_write.simps) (simp add: call m)
  obtain k w' where "packet_write f data w1 = Inr (int k, w')" "0 < k" "k \<le> length data" "script w' = rs"
      "wrote f (take k data) w1 w'"
    using Cons.IH [of w1] Cons.prems by (auto simp: w1_def)
  then show ?case using wrote_trans [OF w] again by auto
qed

lemma split_first:
  "filter P xs \<noteq> [] \<Longrightarrow> \<exists>is r rs. xs = is @ r # rs \<and> (\<forall>i \<in> set is. \<not> P i) \<and> P r \<and>
     length (filter P xs) = Suc (length (filter P rs))"
proof -
  assume "filter P xs \<noteq> []"
  then obtain "is" r rs where "xs = is @ r # rs" "P r" "\<forall>i \<in> set is. \<not> P i"
    using split_list_first_prop [of xs P] by (auto simp: filter_empty_conv)
  then show ?thesis by (intro exI [of _ "is"] exI [of _ r] exI [of _ rs]) (simp add: filter_empty_conv)
qed

lemma full_write_progress:
  assumes "\<forall>r \<in> set (script w). takes_some f r \<or> interrupted f r"
    and "length data \<le> length (filter (takes_some f) (script w))" "data \<noteq> []" "length data < 2 ^ 31"
  shows "\<exists>w'. full_write_loop f data n w = Inr (n + int (length data), w') \<and> wrote f data w w'"
  using assms
proof (induction "length data" arbitrary: data n w rule: less_induct)
  case less
  have "filter (takes_some f) (script w) \<noteq> []" using less.prems(2,3) by auto
  from split_first [OF this] obtain "is" r rs where s: "script w = is @ r # rs"
    "\<forall>i \<in> set is. \<not> takes_some f i" "takes_some f r"
    "length (filter (takes_some f) (script w)) = Suc (length (filter (takes_some f) rs))" by blast
  have "\<forall>i \<in> set is. interrupted f i" using less.prems(1) s(1,2) by auto
  from packet_write_progress [OF s(1) this s(3) less.prems(3,4)] obtain k w1 where
    k: "packet_write f data w = Inr (int k, w1)" "0 < k" "k \<le> length data" "script w1 = rs"
      "wrote f (take k data) w w1" by blast
  have c: "c_int (int (length data)) = int (length data)" using less.prems(4) by simp
  show ?case
  proof (cases "k = length data")
    case True
    then show ?thesis
      by (subst full_write_loop.simps) (use k c in \<open>auto simp: Let_def\<close>)
  next
    case False
    have "\<exists>w'. full_write_loop f (drop k data) (n + int k) w1
        = Inr (n + int k + int (length (drop k data)), w') \<and> wrote f (drop k data) w1 w'"
      by (rule less.hyps) (use k s less.prems False in auto)
    then obtain w' where "full_write_loop f (drop k data) (n + int k) w1 = Inr (n + int (length data), w')"
        "wrote f (drop k data) w1 w'" using k(3) by auto
    moreover from this(2) have "wrote f data w w'" using wrote_trans [OF k(5)] by fastforce
    ultimately show ?thesis
      using False k c by (subst full_write_loop.simps) (auto simp: Let_def)
  qed
qed

subsection \<open>Reading\<close>

text \<open>A read changes no memory of the program, and what it stores fits and is counted.\<close>

definition quiet :: "world \<Rightarrow> world \<Rightarrow> bool" where
  "quiet w w' \<longleftrightarrow> (\<exists>sc tr. w' = w\<lparr>script := sc, trace := tr\<rparr>)"

lemma quietI: "w' = w\<lparr>script := sc, trace := tr\<rparr> \<Longrightarrow> quiet w w'"
  unfolding quiet_def by blast

lemma quiet_refl [simp]: "quiet w w"
  by (rule quietI [where sc = "script w" and tr = "trace w"]) simp

lemma quiet_trans:
  assumes "quiet w w1" "quiet w1 w2"
  shows "quiet w w2"
proof -
  obtain sc tr where "w2 = w1\<lparr>script := sc, trace := tr\<rparr>" using assms(2) unfolding quiet_def by blast
  with assms(1) show ?thesis by (auto simp: quiet_def [of w w1] intro!: quietI [where sc = sc and tr = tr])
qed

lemma quiet_same_mem: "quiet w w' \<Longrightarrow> same_mem w w'"
  by (auto simp: quiet_def same_mem_def)

definition read_post :: "nat \<Rightarrow> world \<Rightarrow> int \<times> char list \<times> world \<Rightarrow> bool" where
  "read_post sz w = (\<lambda>(ret, bs, w'). quiet w w' \<and> length bs \<le> sz \<and>
     (if ret < 0 then bs = [] else ret = int (length bs)))"

lemma sys_read_cases:
  obtains "sys_read f n w = Inl Blocked"
  | e w' where "sys_read f n w = Inr (-1, [], e, w')" "quiet w w'"
  | bs e w' where "sys_read f n w = Inr (int (length bs), bs, e, w')" "length bs \<le> n" "quiet w w'"
proof (cases "script w")
  case Nil
  then show ?thesis using that(1) by (simp add: sys_read_def sys_def)
next
  case (Cons r rs)
  let ?w = "w\<lparr>script := rs, trace := Read f n # trace w\<rparr>"
  have w: "quiet w ?w" by (rule quietI) simp
  show ?thesis
  proof (cases "rv (r (Read f n)) < 0")
    case True
    then show ?thesis using that(2) w by (simp add: sys_read_def sys_def Cons)
  next
    case False
    then show ?thesis
      using that(3) [of "take n (bytes (r (Read f n)))"] w by (simp add: sys_read_def sys_def Cons Let_def)
  qed
qed

lemma packet_read_ends:
  assumes "sz < 2 ^ 31"
  shows "ends (packet_read f sz w) (read_post sz w)"
  using assms
proof (induction f sz w rule: packet_read.induct)
  case step: (1 f sz w)
  have m: "c_int (-1) = -1" by (rule c_int_id) simp_all
  show ?case
  proof (cases rule: sys_read_cases [of f sz w])
    case 1
    then show ?thesis by (subst packet_read.simps) simp
  next
    case (2 e w')
    have "ends (packet_read f sz w') (read_post sz w)" if "e = EINTR"
    proof (rule ends_mono)
      show "ends (packet_read f sz w') (read_post sz w')"
        using step.IH [OF 2(1) refl refl refl refl] step.prems m that by simp
      show "read_post sz w' x \<Longrightarrow> read_post sz w x" for x
        using quiet_trans [OF 2(2)] by (auto simp: read_post_def split: prod.splits)
    qed
    then show ?thesis
      by (subst packet_read.simps) (simp add: 2 m read_post_def)
  next
    case (3 bs e w')
    have "c_int (int (length bs)) = int (length bs)"
      by (rule c_int_small) (use 3(2) step.prems in auto)
    with 3 show ?thesis by (subst packet_read.simps) (simp add: read_post_def)
  qed
qed

lemma full_read_loop_ends:
  assumes "sz < 2 ^ 31" "n = int (length stored)"
  shows "ends (full_read_loop f stored n sz w) (\<lambda>(ret, bs, w'). quiet w w' \<and>
    (\<exists>more. bs = stored @ more \<and> length more \<le> sz) \<and> (0 \<le> ret \<longrightarrow> ret = int (length bs)))"
  using assms
proof (induction sz arbitrary: stored n w rule: less_induct)
  case (less sz)
  have c: "c_int (int sz) = int sz" using less.prems(1) by simp
  show ?case
  proof (subst full_read_loop.simps, simp only: ends_seq, rule ends_mono [OF packet_read_ends [OF less.prems(1)]], goal_cases)
    case (1 x)
    obtain ret bs w' where x: "x = (ret, bs, w')" by (cases x)
    have q: "quiet w w'" "length bs \<le> sz" and r: "if ret < 0 then bs = [] else ret = int (length bs)"
      using 1 by (auto simp: x read_post_def)
    show ?case
    proof (cases "0 < ret")
      case False
      then have "bs = []" using r by (auto split: if_splits)
      with False show ?thesis using q less.prems(2) by (auto simp: x)
    next
      case True
      then have ret: "ret = int (length bs)" "bs \<noteq> []" using r by auto
      have "ends (full_read_loop f (stored @ bs) (n + ret) (sz - length bs) w')
          (\<lambda>(ret, cs, w''). quiet w w'' \<and> (\<exists>more. cs = stored @ more \<and> length more \<le> sz) \<and>
            (0 \<le> ret \<longrightarrow> ret = int (length cs)))" if "length bs \<noteq> sz"
      proof (rule ends_mono)
        show "ends (full_read_loop f (stored @ bs) (n + ret) (sz - length bs) w')
            (\<lambda>(ret, cs, w''). quiet w' w'' \<and> (\<exists>more. cs = (stored @ bs) @ more \<and> length more \<le> sz - length bs) \<and>
              (0 \<le> ret \<longrightarrow> ret = int (length cs)))"
          using ret q less.prems that by (intro less.IH) auto
      qed (use q quiet_trans [OF q(1)] in \<open>fastforce split: prod.splits\<close>)
      then show ?thesis
        using True ret q c less.prems(2) by (auto simp: x Let_def)
    qed
  qed
qed

subsection \<open>Properties\<close>



text \<open>C32: Progress: when every answer to a write takes at least one byte or is an interruption, and there
  are at least as many of the first kind as the packet has bytes, \<open>packet_full_write\<close> returns the
  size of the packet and has sent all of it.\<close>

theorem packet_full_write_completes:
  assumes "\<forall>r \<in> set (script w). takes_some f r \<or> interrupted f r"
    and "sz \<le> length (filter (takes_some f) (script w))" "0 < sz" "sz \<le> length buf" "sz < 2 ^ 31"
  shows "\<exists>w'. packet_full_write f buf sz w = Inr (int sz, w') \<and> wrote f (take sz buf) w w'"
proof -
  have "length (take sz buf) = sz" "take sz buf \<noteq> []" using assms by auto
  then show ?thesis
    using full_write_progress [of w f "take sz buf" 0] assms by (simp add: packet_full_write_def)
qed

definition eintr :: "call \<Rightarrow> reply" where
  "eintr c = (answer (-1) c)\<lparr>err := EINTR\<rparr>"

theorem packet_full_write_completes_witness:
  "\<exists>w'. packet_full_write 7 ''AB'' 2 (boot [eintr, answer 1, eintr, answer 5]) = Inr (2, w') \<and>
     sent w' 7 = ''AB''"
proof -
  let ?rs = "[eintr, answer 1, eintr, answer 5]"
  have t: "takes_some 7 (answer 1)" "takes_some 7 (answer 5)" "\<not> takes_some 7 eintr" "interrupted 7 eintr"
    by (simp_all add: takes_some_def interrupted_def eintr_def answer_def)
  have "\<exists>w'. packet_full_write 7 ''AB'' 2 (boot ?rs) = Inr (int 2, w') \<and> wrote 7 (take 2 ''AB'') (boot ?rs) w'"
    by (rule packet_full_write_completes) (simp_all add: boot_def t)
  then show ?thesis by (auto simp: wrote_def boot_def)
qed

text \<open>\<open>packet_full_read\<close> ends whatever the system answers, stores at most the \<open>sz\<close> bytes the
  buffer has room for, changes nothing else, and a result that is not negative is the number of
  bytes stored.\<close>

theorem packet_full_read_bounds:
  assumes "sz < 2 ^ 31"
  shows "ends (packet_full_read f sz w) (\<lambda>(ret, bs, w').
    quiet w w' \<and> length bs \<le> sz \<and> (0 \<le> ret \<longrightarrow> ret = int (length bs)))"
  unfolding packet_full_read_def
  by (rule ends_mono [OF full_read_loop_ends [OF assms]]) auto

theorem packet_full_read_bounds_witness:
  "ends (packet_full_read 7 3 (boot [\<lambda>c. (answer 2 c)\<lparr>bytes := ''ABCDEF''\<rparr>])) (\<lambda>(ret, bs, w').
    quiet (boot [\<lambda>c. (answer 2 c)\<lparr>bytes := ''ABCDEF''\<rparr>]) w' \<and> length bs \<le> 3 \<and>
    (0 \<le> ret \<longrightarrow> ret = int (length bs)))
   \<and> map_sum id fst (packet_full_read 7 3 (boot [\<lambda>c. (answer 2 c)\<lparr>bytes := ''ABCDEF''\<rparr>])) = Inr 3"
proof
  show "map_sum id fst (packet_full_read 7 3 (boot [\<lambda>c. (answer 2 c)\<lparr>bytes := ''ABCDEF''\<rparr>])) = Inr 3"
    by code_simp
qed (rule packet_full_read_bounds, simp)

end
