(* ===== verification/Inet.thy ===== *)
theory Inet
  imports World
begin

section \<open>The numbers-and-dots notation of inet(3)\<close>

text \<open>
  The C library's conversions between IPv4 addresses and text that the proxy calls:
  \<open>inet_ntoa\<close> prints four decimal bytes; \<open>inet_aton\<close> reads one to four numbers, decimal, octal
  (leading 0) or hexadecimal (leading 0x), of which the last fills the bytes that are left, and
  ignores what follows white space; \<open>inet_addr\<close> is \<open>inet_aton\<close> with the all-ones address for a
  failure. The lemmas show that reading back what was printed gives the address.
\<close>

fun inet_ntoa :: "in_addr \<Rightarrow> string" where
  "inet_ntoa (a, b, c, d) =
     dec (unat a) @ ''.'' @ dec (unat b) @ ''.'' @ dec (unat c) @ ''.'' @ dec (unat d)"

definition isodigit :: "char \<Rightarrow> bool" where
  "isodigit c = (48 \<le> code c \<and> code c \<le> 55)"

definition xdigit_val :: "char \<Rightarrow> nat" where
  "xdigit_val c = (if isdigit c then code c - 48 else if code c < 97 then code c - 55 else code c - 87)"

definition base_val :: "nat \<Rightarrow> (char \<Rightarrow> nat) \<Rightarrow> string \<Rightarrow> nat" where
  "base_val b dv s = foldl (\<lambda>a c. a * b + dv c) 0 s"

text \<open>A number at the start of the text, and the rest.\<close>

definition inet_number :: "string \<Rightarrow> (nat \<times> string) option" where
  "inet_number s =
     (if s = [] \<or> \<not> isdigit (hd s) then None
      else if hd s = CHR ''0'' \<and> length s > 2 \<and> (s ! 1 = CHR ''x'' \<or> s ! 1 = CHR ''X'')
          \<and> isxdigit (s ! 2)
        then Some (base_val 16 xdigit_val (takeWhile isxdigit (drop 2 s)), dropWhile isxdigit (drop 2 s))
      else if hd s = CHR ''0''
        then Some (base_val 8 digit_val (takeWhile isodigit s), dropWhile isodigit s)
      else Some (base_val 10 digit_val (takeWhile isdigit s), dropWhile isdigit s))"

text \<open>The numbers of an address, with at most \<open>n\<close> more dots, and the rest of the text.\<close>

fun inet_parts :: "nat \<Rightarrow> string \<Rightarrow> (nat list \<times> string) option" where
  "inet_parts 0 s =
     (case inet_number s of None \<Rightarrow> None
      | Some (v, r) \<Rightarrow> if r \<noteq> [] \<and> hd r = CHR ''.'' then None else Some ([v], r))"
| "inet_parts (Suc n) s =
     (case inet_number s of None \<Rightarrow> None
      | Some (v, r) \<Rightarrow>
          if r \<noteq> [] \<and> hd r = CHR ''.''
          then (if v > 255 then None
                else map_option (\<lambda>(vs, q). (v # vs, q)) (inet_parts n (tl r)))
          else Some ([v], r))"

text \<open>\<open>v\<close> in \<open>n\<close> bytes, the most significant first.\<close>

fun be_bytes :: "nat \<Rightarrow> nat \<Rightarrow> nat list" where
  "be_bytes 0 v = []"
| "be_bytes (Suc n) v = be_bytes n (v div 256) @ [v mod 256]"

fun pack_addr :: "nat list \<Rightarrow> in_addr option" where
  "pack_addr [a, b, c, d] = Some (of_nat a, of_nat b, of_nat c, of_nat d)"
| "pack_addr _ = None"

definition inet_aton :: "string \<Rightarrow> in_addr option" where
  "inet_aton s =
     (case inet_parts 3 s of None \<Rightarrow> None
      | Some (vs, r) \<Rightarrow>
          if r \<noteq> [] \<and> \<not> isspace (hd r) then None
          else if last vs \<ge> 256 ^ (5 - length vs) then None
          else pack_addr (butlast vs @ be_bytes (5 - length vs) (last vs)))"

definition INADDR_NONE :: in_addr where "INADDR_NONE = (255, 255, 255, 255)"
definition INADDR_ANY :: in_addr where "INADDR_ANY = (0, 0, 0, 0)"

definition inet_addr :: "string \<Rightarrow> in_addr" where
  "inet_addr s = (case inet_aton s of None \<Rightarrow> INADDR_NONE | Some a \<Rightarrow> a)"

subsection \<open>Reading back what was printed\<close>

lemma digit_char_zero: "digit_char 0 = CHR ''0''"
  by code_simp

lemma digit_chars:
  "digit_char 0 = CHR ''0''" "digit_char 1 = CHR ''1''" "digit_char (Suc 0) = CHR ''1''"
  "digit_char 2 = CHR ''2''" "digit_char 3 = CHR ''3''" "digit_char 4 = CHR ''4''"
  "digit_char 5 = CHR ''5''" "digit_char 6 = CHR ''6''" "digit_char 7 = CHR ''7''"
  "digit_char 8 = CHR ''8''" "digit_char 9 = CHR ''9''"
  by code_simp+

lemma unat_byte: "unat (y :: 8 word) < 256"
  using unsigned_less [of y] by simp

lemma unat_short: "unat (p :: 16 word) < 65536"
  using unsigned_less [of p] by simp

lemma base_val_dec: "base_val 10 digit_val s = digits_val 0 s"
  by (simp add: base_val_def digits_val_def)

lemma takeWhile_digits:
  "\<forall>c \<in> set s. isdigit c \<Longrightarrow> r = [] \<or> \<not> isdigit (hd r) \<Longrightarrow>
   takeWhile isdigit (s @ r) = s \<and> dropWhile isdigit (s @ r) = r"
  by (induction s) (cases r; auto)+

lemma inet_number_dec:
  assumes r: "r = [] \<or> (\<not> isdigit (hd r) \<and> hd r \<noteq> CHR ''x'' \<and> hd r \<noteq> CHR ''X'')"
  shows "inet_number (dec n @ r) = Some (n, r)"
proof (cases "hd (dec n) = digit_char 0")
  case True
  then have n: "n = 0" by (rule dec_hd_zero)
  have z: "dec 0 = [CHR ''0'']" by (simp add: dec_small digit_char_zero)
  have "isodigit CHR ''0''" "isdigit CHR ''0''" by (simp_all add: isodigit_def isdigit_def code_def)
  moreover have "r = [] \<or> \<not> isodigit (hd r)" using r by (auto simp: isodigit_def isdigit_def)
  ultimately show ?thesis
    using r by (cases r) (auto simp: n z inet_number_def base_val_def digit_val_def code_def)
next
  case False
  have hd: "hd (dec n @ r) = hd (dec n)" by (simp add: hd_append)
  have "isdigit (hd (dec n))" by (rule dec_digit [of _ n]) simp
  moreover have "hd (dec n) \<noteq> CHR ''0''" using False by (simp add: digit_char_zero)
  moreover have "takeWhile isdigit (dec n @ r) = dec n \<and> dropWhile isdigit (dec n @ r) = r"
    using r dec_digits by (intro takeWhile_digits) auto
  ultimately show ?thesis
    by (simp add: inet_number_def hd base_val_dec digits_val_dec)
qed

lemma inet_parts_ntoa:
  "inet_parts 3 (inet_ntoa (a, b, c, d)) = Some ([unat a, unat b, unat c, unat d], [])"
proof -
  have dot: "inet_number (dec n @ CHR ''.'' # t) = Some (n, CHR ''.'' # t)" for n t
    by (rule inet_number_dec) (simp add: isdigit_def code_def)
  have last: "inet_number (dec n) = Some (n, [])" for n
    using inet_number_dec [of "[]" n] by simp
  show ?thesis
    using unat_byte [of a] unat_byte [of b] unat_byte [of c] by (simp add: numeral_3_eq_3 dot last not_less del: dec.simps)
qed

theorem inet_aton_ntoa: "inet_aton (inet_ntoa x) = Some x"
proof (cases x)
  case (fields a b c d)
  have k: "5 - length [unat a, unat b, unat c, unat d] = Suc 0" by simp
  show ?thesis
    unfolding fields inet_aton_def inet_parts_ntoa option.case prod.case k
    using unat_byte [of d] by simp
qed

lemma inet_ntoa_chars:
  "c \<in> set (inet_ntoa x) \<Longrightarrow> isdigit c \<or> c = CHR ''.''"
  by (cases x) (auto dest: dec_digit)

lemma inet_ntoa_length: "length (inet_ntoa x) \<le> 15"
proof (cases x)
  case (fields a b c d)
  have "length (dec (unat y)) \<le> 3" for y :: "8 word"
    using unat_byte [of y] by (intro dec_length_3) simp
  from this [of a] this [of b] this [of c] this [of d] show ?thesis
    by (simp add: fields)
qed

end
