(* ===== verification/Utils.thy ===== *)
theory Utils
  imports Inet
begin

section \<open>utils.c: recognising, writing and reading PORT commands\<close>

text \<open>
  \<open>src/utils.c\<close>. A pointer into a buffer is the list of the bytes from there to the end of the
  buffer, \<open>None\<close> for NULL. The lemmas state what the recogniser accepts, what the writer leaves in
  the buffer, and that the reader gets back the address the writer wrote.
\<close>

subsection \<open>skip_whitespace\<close>

fun skip_ws_loop :: "char list \<Rightarrow> char list cres" where
  "skip_ws_loop [] = Inl (UB Out_of_bounds)"
| "skip_ws_loop (c # cs) =
     (if c \<noteq> NUL \<and> (c = TAB \<or> c = CHR '' '') then skip_ws_loop cs else Inr (c # cs))"

definition skip_whitespace :: "char list option option \<Rightarrow> char list option option cres" where
  "skip_whitespace data =
     (case data of None \<Rightarrow> Inr None | Some None \<Rightarrow> Inr (Some None)
      | Some (Some p) \<Rightarrow> seq (skip_ws_loop p) (\<lambda>q. Inr (Some (Some q))))"

subsection \<open>is_port_command\<close>

text \<open>The loop: \<open>k\<close> bytes of the size are left, \<open>value_have\<close> and \<open>delimiter_count\<close> as in the code.\<close>

fun port_scan :: "nat \<Rightarrow> char list \<Rightarrow> bool \<Rightarrow> nat \<Rightarrow> bool cres" where
  "port_scan 0 cs value_have delimiter_count = Inr (delimiter_count = 5)"
| "port_scan (Suc k) [] value_have delimiter_count = Inl (UB Out_of_bounds)"
| "port_scan (Suc k) (c # cs) value_have delimiter_count =
     (if c = CR \<or> c = LF \<or> c = NUL then Inr (delimiter_count = 5)
      else if isxdigit c then port_scan k cs True delimiter_count
      else if c = CHR '','' \<or> c = CHR ''.''
        then (if \<not> value_have then Inr False else port_scan k cs False (Suc delimiter_count))
      else port_scan k cs value_have delimiter_count)"

definition is_port_command :: "char list option \<Rightarrow> int \<Rightarrow> bool cres" where
  "is_port_command command sz =
     (case command of None \<Rightarrow> Inr False
      | Some buf \<Rightarrow>
          if sz < 5 then Inr False
          else seq (strncmp buf (c_lit ''PORT'') 4) (\<lambda>d.
            if d \<noteq> 0 then Inr False
            else port_scan (nat sz - 5) (drop 5 buf) False 0))"

subsection \<open>generate_port_command\<close>

fun dots_to_commas :: "string \<Rightarrow> string" where
  "dots_to_commas [] = []"
| "dots_to_commas (c # cs) =
     (if c = CR \<or> c = LF \<or> c = NUL then c # cs
      else (if c = CHR ''.'' then CHR '','' else c) # dots_to_commas cs)"

definition port_str :: "16 word \<Rightarrow> string" where
  "port_str port = dec (unat port div 256) @ '','' @ dec (unat port mod 256)"

definition write_port_command :: "in_addr \<Rightarrow> 16 word \<Rightarrow> char list \<Rightarrow> char list cres" where
  "write_port_command addr port dest =
     seq (strncpy dest (c_lit ''PORT '') 6) (\<lambda>dest.
     seq (strcat dest (dots_to_commas (inet_ntoa addr))) (\<lambda>dest.
     seq (strcat dest '','') (\<lambda>dest.
     seq (strcat dest (port_str port)) (\<lambda>dest.
     strcat dest [LF]))))"

definition generate_port_command ::
  "int \<Rightarrow> char list option \<Rightarrow> world \<Rightarrow> (int \<times> char list option \<times> world) cres" where
  "generate_port_command socket_fd destination w =
     (case destination of None \<Rightarrow> Inr (-1, None, w)
      | Some dest \<Rightarrow>
          if socket_fd < 0 then Inr (-1, Some dest, w)
          else seq (getsockname socket_fd w) (\<lambda>(ret, addr, w).
            if ret < 0 then Inr (-2, Some dest, w)
            else seq (write_port_command (sin_addr addr) (ntohs (sin_port addr)) dest) (\<lambda>dest.
              seq (strlen dest) (\<lambda>n. Inr (int n, Some dest, w)))))"

subsection \<open>get_address_from_port_command\<close>

text \<open>
  The loop that turns \<open>a,b,c,d,e,f\<close> into \<open>a.b.c.d\<close>, NUL, \<open>e.f\<close>: the text after the loop, the
  number of commas, and the offset of the port text. \<open>pos\<close> is the offset of the current byte.
\<close>

fun comma_pass :: "nat \<Rightarrow> nat \<Rightarrow> nat option \<Rightarrow> string \<Rightarrow> string \<times> nat \<times> nat option" where
  "comma_pass pos commas portstr [] = ([], commas, portstr)"
| "comma_pass pos commas portstr (c # cs) =
     (if c = CHR '',''
      then (let (s, n, q) = comma_pass (Suc pos) (Suc commas)
                              (if commas \<noteq> 3 then portstr else Some (Suc pos)) cs
            in ((if commas \<noteq> 3 then CHR ''.'' else NUL) # s, n, q))
      else (let (s, n, q) = comma_pass (Suc pos) commas portstr cs in (c # s, n, q)))"

text \<open>
  The loop over the port text: \<open>port\<close> is a \<open>short\<close>, \<open>val\<close> an \<open>unsigned long\<close>; \<open>start\<close> says
  that the current byte is the first. \<open>None\<close> is the error return.
\<close>

fun port_loop :: "bool \<Rightarrow> 16 word \<Rightarrow> 64 word \<Rightarrow> string \<Rightarrow> (16 word \<times> 64 word) option" where
  "port_loop start port val [] = Some (port, val)"
| "port_loop start port val (c # cs) =
     (if \<not> isdigit c
      then (if c = CR \<or> c = LF then port_loop False port val cs
            else if start \<or> c \<noteq> CHR ''.'' \<or> val > 0xFF then None
            else port_loop False (push_bit 8 port + ucast val) 0 cs)
      else port_loop False port (val * 10 + of_nat (digit_val c)) cs)"

definition get_address_from_port_command ::
  "char list \<Rightarrow> int \<Rightarrow> world \<Rightarrow> (sockaddr option \<times> world) cres" where
  "get_address_from_port_command buf received_bytes w =
     seq (malloc_block w) (\<lambda>(ok, w).
     if \<not> ok then Inr (None, w) else
     seq (malloc_block w) (\<lambda>(ok, w).
     if \<not> ok then Inr (None, free_block w) else
     seq (strn_read buf (nat received_bytes)) (\<lambda>addrstr.
     case comma_pass 0 0 None (cstr addrstr) of (addrstr, commas, portstr) \<Rightarrow>
     if commas \<noteq> 5 then Inr (None, free_block (free_block w)) else
     case inet_aton (cstr addrstr) of
       None \<Rightarrow> Inr (None, free_block (free_block w))
     | Some sin \<Rightarrow>
       (case portstr of None \<Rightarrow> Inl (UB Null_deref) | Some q \<Rightarrow>
        case port_loop True 0 0 (cstr (drop q addrstr)) of
          None \<Rightarrow> Inr (None, free_block w)
        | Some (port, val) \<Rightarrow>
          if val > 0xFF \<or> sint port > 0xFF then Inr (None, free_block (free_block w))
          else Inr (Some \<lparr>sin_family = AF_INET,
                          sin_port = htons (push_bit 8 port + ucast val),
                          sin_addr = sin\<rparr>, free_block w)))))"

subsection \<open>What is_port_command accepts\<close>

text \<open>
  The specification: the argument of the command is cut at the first line end or NUL, and split
  at every comma and full stop. It is a PORT command when there are six fields and each of
  the first five has a hexadecimal digit.
\<close>

definition is_delim :: "char \<Rightarrow> bool" where
  "is_delim c = (c = CHR '','' \<or> c = CHR ''.'')"

fun fields :: "string \<Rightarrow> string list" where
  "fields [] = [[]]"
| "fields (c # cs) = (if is_delim c then [] # fields cs
                      else (c # hd (fields cs)) # tl (fields cs))"

definition port_argument :: "char list \<Rightarrow> nat \<Rightarrow> string" where
  "port_argument buf n = takeWhile (\<lambda>c. c \<noteq> CR \<and> c \<noteq> LF \<and> c \<noteq> NUL) (take (n - 5) (drop 5 buf))"

definition has_xdigit :: "string \<Rightarrow> bool" where
  "has_xdigit f = (\<exists>c \<in> set f. isxdigit c)"

definition port_command_spec :: "char list \<Rightarrow> nat \<Rightarrow> bool" where
  "port_command_spec buf n =
     (5 \<le> n \<and> take 4 buf = ''PORT'' \<and>
      (let fs = fields (port_argument buf n)
       in length fs = 6 \<and> (\<forall>f \<in> set (butlast fs). has_xdigit f)))"

lemma fields_neq_Nil [simp]: "fields s \<noteq> []"
  by (induction s) auto

fun fields_ok :: "bool \<Rightarrow> string list \<Rightarrow> bool" where
  "fields_ok vh (f # g # fs) = ((vh \<or> has_xdigit f) \<and> fields_ok False (g # fs))"
| "fields_ok vh _ = True"

lemma fields_ok_False: "fs \<noteq> [] \<Longrightarrow> fields_ok False fs \<longleftrightarrow> (\<forall>f \<in> set (butlast fs). has_xdigit f)"
  by (induction fs rule: induct_list012) auto

lemma fields_ok_cons:
  "fs \<noteq> [] \<Longrightarrow> fields_ok vh ((c # hd fs) # tl fs) = fields_ok (vh \<or> isxdigit c) fs"
  by (cases fs; cases "tl fs") (auto simp: has_xdigit_def)

lemma isxdigit_not_delim: "isxdigit c \<Longrightarrow> \<not> is_delim c \<and> c \<noteq> CR \<and> c \<noteq> LF \<and> c \<noteq> NUL"
  by (auto simp: is_delim_def isxdigit_def isdigit_def code_def)

lemma port_scan_fields:
  "k \<le> length cs \<Longrightarrow>
   port_scan k cs vh dc =
     Inr (let fs = fields (takeWhile (\<lambda>c. c \<noteq> CR \<and> c \<noteq> LF \<and> c \<noteq> NUL) (take k cs))
          in fields_ok vh fs \<and> dc + length fs = 6)"
proof (induction k cs vh dc rule: port_scan.induct)
  case (3 k c cs vh dc)
  show ?case
  proof (cases "c = CR \<or> c = LF \<or> c = NUL \<or> isxdigit c")
    case True
    then show ?thesis
      using 3 isxdigit_not_delim [of c] by (auto simp: Let_def fields_ok_cons)
  next
    case no_end: False
    show ?thesis
    proof (cases "is_delim c")
      case True
      let ?fs = "fields (takeWhile (\<lambda>c. c \<noteq> CR \<and> c \<noteq> LF \<and> c \<noteq> NUL) (take k cs))"
      have "fields_ok vh ([] # ?fs) = (vh \<and> fields_ok False ?fs)"
        by (cases ?fs) (auto simp: has_xdigit_def)
      with 3 no_end True show ?thesis by (auto simp: Let_def is_delim_def)
    next
      case False
      with 3 no_end show ?thesis
        by (auto simp: Let_def is_delim_def fields_ok_cons)
    qed
  qed
qed (auto simp: Let_def)

lemma is_port_command_run:
  assumes "nat n \<le> length buf"
  shows "is_port_command (Some buf) n = Inr (port_command_spec buf (nat n))"
proof (cases "n < 5")
  case True
  then have "\<not> 5 \<le> nat n" by linarith
  with True show ?thesis by (simp add: is_port_command_def port_command_spec_def)
next
  case False
  obtain d where d: "strncmp buf (c_lit ''PORT'') 4 = Inr d" "d = 0 \<longleftrightarrow> take 4 buf = ''PORT''"
  proof -
    have "length ''PORT'' \<le> length buf" using assms False by simp
    then show ?thesis
      using strncmp_prefix [of "''PORT''" buf "[NUL]"] that by (auto simp: c_lit_def eval_nat_numeral)
  qed
  with False assms show ?thesis
    by (auto simp: is_port_command_def port_command_spec_def port_argument_def Let_def
        port_scan_fields fields_ok_False)
qed

subsection \<open>What generate_port_command writes\<close>

definition port_command_text :: "in_addr \<Rightarrow> 16 word \<Rightarrow> string" where
  "port_command_text addr port =
     ''PORT '' @ dots_to_commas (inet_ntoa addr) @ '','' @ port_str port @ [LF]"

lemma dots_to_commas_map:
  "\<forall>c \<in> set s. isdigit c \<or> c = CHR ''.'' \<Longrightarrow>
   dots_to_commas s = map (\<lambda>c. if c = CHR ''.'' then CHR '','' else c) s"
  by (induction s) (auto dest: isdigit_not_special)

lemma dots_to_commas_ntoa:
  "dots_to_commas (inet_ntoa (a, b, c, d)) =
     dec (unat a) @ '','' @ dec (unat b) @ '','' @ dec (unat c) @ '','' @ dec (unat d)"
proof -
  have dec: "map (\<lambda>c. if c = CHR ''.'' then CHR '','' else c) (dec n) = dec n" for n
    by (rule map_idI) (use dec_no_special in auto)
  show ?thesis
    by (subst dots_to_commas_map) (auto simp: dec dest: inet_ntoa_chars dec_digit)
qed

lemma dots_to_commas_no_nul: "NUL \<notin> set (dots_to_commas (inet_ntoa x))"
  by (cases x) (simp add: dots_to_commas_ntoa dec_no_special del: inet_ntoa.simps)

lemma port_str_no_nul: "NUL \<notin> set (port_str p)"
  by (auto simp: port_str_def dec_no_special)

lemma port_bytes: "unat p div 256 < 256" "unat p mod 256 < 256" for p :: "16 word"
  using unat_short [of p] by auto

lemma port_str_length: "length (port_str p) \<le> 7"
  using dec_length_3 [of "unat p div 256"] dec_length_3 [of "unat p mod 256"] port_bytes [of p]
  by (auto simp: port_str_def)

lemma dots_to_commas_length: "length (dots_to_commas (inet_ntoa x)) \<le> 15"
  using inet_ntoa_length [of x] by (subst dots_to_commas_map) (auto dest: inet_ntoa_chars)

lemma port_command_text_length: "length (port_command_text a p) \<le> 29"
  using dots_to_commas_length [of a] port_str_length [of p] by (simp add: port_command_text_def)

lemma port_command_text_no_nul: "NUL \<notin> set (port_command_text a p)"
  using dots_to_commas_no_nul port_str_no_nul by (simp add: port_command_text_def)

lemma write_port_command_run:
  assumes "length dest \<ge> 30"
  shows "write_port_command a p dest =
    Inr (port_command_text a p @ NUL # drop (length (port_command_text a p) + 1) dest)"
proof -
  let ?x = "dots_to_commas (inet_ntoa a)"
  have 1: "strncpy dest (c_lit ''PORT '') 6 = Inr (''PORT '' @ NUL # drop 6 dest)"
    using assms by (simp add: strncpy_def c_lit_def eval_nat_numeral)
  have "length ?x \<le> 15" "length (port_str p) \<le> 7" using dots_to_commas_length port_str_length by auto
  then have 2: "strcat (''PORT '' @ NUL # drop 6 dest) ?x
      = Inr ((''PORT '' @ ?x) @ NUL # drop (6 + length ?x) dest)"
    and 3: "strcat ((''PORT '' @ ?x) @ NUL # drop (6 + length ?x) dest) '',''
      = Inr ((''PORT '' @ ?x @ '','') @ NUL # drop (7 + length ?x) dest)"
    and 4: "strcat ((''PORT '' @ ?x @ '','') @ NUL # drop (7 + length ?x) dest) (port_str p)
      = Inr ((''PORT '' @ ?x @ '','' @ port_str p) @ NUL # drop (7 + length ?x + length (port_str p)) dest)"
    and 5: "strcat ((''PORT '' @ ?x @ '','' @ port_str p) @ NUL # drop (7 + length ?x + length (port_str p)) dest) [LF]
      = Inr ((''PORT '' @ ?x @ '','' @ port_str p @ [LF]) @ NUL # drop (8 + length ?x + length (port_str p)) dest)"
    using assms dots_to_commas_no_nul [of a] port_str_no_nul [of p]
    by (subst strcat_lit; simp add: ac_simps)+
  show ?thesis
    unfolding write_port_command_def 1 seq_simps 2 3 4 5 by (simp add: port_command_text_def eval_nat_numeral)
qed

subsection \<open>What get_address_from_port_command reads\<close>

text \<open>A host and port in the notation of the PORT command, as the comma loop leaves it.\<close>

lemma comma_pass_no_comma:
  "CHR '','' \<notin> set s \<Longrightarrow>
   comma_pass pos n q (s @ t) =
     (let (u, m, r) = comma_pass (pos + length s) n q t in (s @ u, m, r))"
  by (induction s arbitrary: pos) (auto simp: Let_def split: prod.splits)

lemma comma_pass_port:
  assumes "CHR '','' \<notin> set a" "CHR '','' \<notin> set b" "CHR '','' \<notin> set c" "CHR '','' \<notin> set d"
    "CHR '','' \<notin> set e" "CHR '','' \<notin> set f"
  shows "comma_pass 0 0 None (a @ '','' @ b @ '','' @ c @ '','' @ d @ '','' @ e @ '','' @ f) =
    (a @ ''.'' @ b @ ''.'' @ c @ ''.'' @ d @ [NUL] @ e @ ''.'' @ f, 5,
     Some (length a + length b + length c + length d + 4))"
  using assms comma_pass_no_comma [of f _ _ _ "[]"]
  by (simp add: comma_pass_no_comma eval_nat_numeral)

lemma port_loop_digits:
  "\<forall>c \<in> set s. isdigit c \<Longrightarrow>
   port_loop b p v (s @ t) = port_loop (b \<and> s = []) p (of_nat (digits_val 0 s) + v * 10 ^ length s) t"
proof (induction s arbitrary: b v)
  case Nil
  then show ?case by simp
next
  case (Cons c s)
  have shift: "digits_val m s = m * 10 ^ length s + digits_val 0 s" for m
    by (induction s rule: rev_induct) (auto simp: algebra_simps)
  from Cons show ?case
    by (simp add: shift [of "digit_val c"] algebra_simps)
qed

lemma port_loop_dec:
  "port_loop b p 0 (dec n @ t) = port_loop False p (of_nat n) t"
  using port_loop_digits [of "dec n" b p 0 t] by (simp add: dec_digits digits_val_dec)

lemma port_loop_line_end:
  "set t \<subseteq> {CR, LF} \<Longrightarrow> port_loop b p v t = Some (p, v)"
  by (induction t arbitrary: b) (auto simp: isdigit_def code_def)

lemma port_loop_port:
  assumes "e < 256" "f < 256" "set t \<subseteq> {CR, LF}"
  shows "port_loop True 0 0 (dec e @ ''.'' @ dec f @ t) = Some (of_nat e, of_nat f)"
proof -
  have "\<not> (of_nat e > (0xFF :: 64 word))"
    using assms(1) by (simp add: word_less_nat_alt unat_of_nat)
  moreover have "ucast (of_nat e :: 64 word) = (of_nat e :: 16 word)"
    using assms(1) by (simp add: unsigned_of_nat take_bit_nat_eq_self)
  ultimately show ?thesis
    by (simp add: port_loop_dec isdigit_def code_def port_loop_line_end [OF assms(3)])
qed

definition host_port_text :: "in_addr \<Rightarrow> 16 word \<Rightarrow> string" where
  "host_port_text addr port = dots_to_commas (inet_ntoa addr) @ '','' @ port_str port"

lemma port_command_text_host_port:
  "port_command_text a p = ''PORT '' @ host_port_text a p @ [LF]"
  by (simp add: port_command_text_def host_port_text_def)

lemma host_port_text_no_nul: "NUL \<notin> set (host_port_text a p)"
  using dots_to_commas_no_nul port_str_no_nul by (simp add: host_port_text_def)

lemma comma_pass_host_port:
  assumes "set t \<subseteq> {CR, LF}"
  shows "comma_pass 0 0 None (host_port_text a p @ t) =
    (inet_ntoa a @ [NUL] @ dec (unat p div 256) @ ''.'' @ dec (unat p mod 256) @ t, 5,
     Some (length (inet_ntoa a) + 1))"
proof (cases a)
  case (fields h1 h2 h3 h4)
  have t: "CHR '','' \<notin> set (dec (unat p mod 256) @ t)" using assms by (auto simp: dec_no_special)
  have d: "dots_to_commas (inet_ntoa a) =
      dec (unat h1) @ '','' @ dec (unat h2) @ '','' @ dec (unat h3) @ '','' @ dec (unat h4)"
    by (simp only: fields dots_to_commas_ntoa)
  show ?thesis
    using comma_pass_port [OF dec_no_special(4) dec_no_special(4) dec_no_special(4) dec_no_special(4)
        dec_no_special(4) t, of "unat h1" "unat h2" "unat h3" "unat h4" "unat p div 256"]
    unfolding host_port_text_def d by (simp add: fields port_str_def add.assoc)
qed

lemma sint_small: "n < 256 \<Longrightarrow> sint (of_nat n :: 16 word) = int n"
  by (simp add: signed_of_nat signed_take_bit_int_eq_self)

lemma join_port:
  "push_bit 8 (of_nat (unat p div 256)) + ucast (of_nat (unat p mod 256) :: 64 word) = (p :: 16 word)"
proof -
  have u: "ucast (of_nat (unat p mod 256) :: 64 word) = (of_nat (unat p mod 256) :: 16 word)"
    by (simp add: unsigned_of_nat take_bit_nat_eq_self)
  have "push_bit 8 (of_nat (unat p div 256)) + of_nat (unat p mod 256) =
      (of_nat (unat p div 256 * 256 + unat p mod 256) :: 16 word)"
    by (simp only: push_bit_eq_mult of_nat_add of_nat_mult) simp
  also have "\<dots> = p" unfolding div_mult_mod_eq by simp
  finally show ?thesis unfolding u .
qed

text \<open>The reader on a host in commas followed by two more fields: what happens to the port text.\<close>

lemma get_address_parse:
  assumes tx: "cstr (take (nat n) buf) = dots_to_commas (inet_ntoa a) @ '','' @ q1 @ '','' @ q2"
    and q: "CHR '','' \<notin> set q1" "CHR '','' \<notin> set q2"
    and mem: "NUL \<in> set (take (nat n) buf) \<or> nat n \<le> length buf"
    and w: "script w = r1 # r2 # rs" "rv (r1 Malloc) \<noteq> 0" "rv (r2 Malloc) \<noteq> 0"
  shows "get_address_from_port_command buf n w =
    (let w' = w\<lparr>script := rs, trace := Malloc # Malloc # trace w\<rparr> in
     case port_loop True 0 0 (q1 @ ''.'' @ q2) of
       None \<Rightarrow> Inr (None, w'\<lparr>blocks := Suc (blocks w)\<rparr>)
     | Some (port, val) \<Rightarrow>
         if val > 0xFF \<or> sint port > 0xFF then Inr (None, w')
         else Inr (Some \<lparr>sin_family = AF_INET, sin_port = htons (push_bit 8 port + ucast val),
                         sin_addr = a\<rparr>, w'\<lparr>blocks := Suc (blocks w)\<rparr>))"
proof -
  obtain cs where cs: "strn_read buf (nat n) = Inr cs"
    using mem strn_read_nul strn_read_no_nul by blast
  have c: "cstr cs = dots_to_commas (inet_ntoa a) @ '','' @ q1 @ '','' @ q2"
    using strn_read_cstr [OF cs] tx by simp
  have nq: "NUL \<notin> set (q1 @ ''.'' @ q2)"
  proof -
    have "NUL \<notin> set (cstr (take (nat n) buf))" by simp
    then show ?thesis unfolding tx by simp
  qed
  let ?s = "inet_ntoa a @ [NUL] @ q1 @ ''.'' @ q2"
  obtain h1 h2 h3 h4 where fields: "a = (h1, h2, h3, h4)" by (cases a)
  have d: "dots_to_commas (inet_ntoa a) =
      dec (unat h1) @ '','' @ dec (unat h2) @ '','' @ dec (unat h3) @ '','' @ dec (unat h4)"
    by (simp only: fields dots_to_commas_ntoa)
  have pass: "comma_pass 0 0 None (cstr cs) = (?s, 5, Some (length (inet_ntoa a) + 1))"
    using comma_pass_port [OF dec_no_special(4) dec_no_special(4) dec_no_special(4) dec_no_special(4)
        q, of "unat h1" "unat h2" "unat h3" "unat h4"]
    unfolding c d by (simp add: fields add.assoc)
  have "NUL \<notin> set (inet_ntoa a)" by (auto dest!: inet_ntoa_chars dest: isdigit_not_special)
  then have host: "cstr ?s = inet_ntoa a" by (simp add: cstr_lit)
  have port: "cstr (drop (length (inet_ntoa a) + 1) ?s) = q1 @ ''.'' @ q2"
    using cstr_id [OF nq] by simp
  show ?thesis
    unfolding get_address_from_port_command_def malloc_block_def malloc_def sys_def
    using w cs by (simp add: free_block_def pass host [simplified] inet_aton_ntoa port [simplified]
        Let_def split: option.split del: inet_ntoa.simps)
qed

lemma get_address_run:
  assumes tx: "cstr (take (nat n) buf) = host_port_text a p @ t" "set t \<subseteq> {CR, LF}"
    and mem: "NUL \<in> set (take (nat n) buf) \<or> nat n \<le> length buf"
    and w: "script w = r1 # r2 # rs" "rv (r1 Malloc) \<noteq> 0" "rv (r2 Malloc) \<noteq> 0"
  shows "get_address_from_port_command buf n w =
    Inr (Some \<lparr>sin_family = AF_INET, sin_port = htons p, sin_addr = a\<rparr>,
         w\<lparr>script := rs, trace := Malloc # Malloc # trace w, blocks := Suc (blocks w)\<rparr>)"
proof -
  have tx': "cstr (take (nat n) buf) = dots_to_commas (inet_ntoa a) @ '','' @
      dec (unat p div 256) @ '','' @ (dec (unat p mod 256) @ t)"
    by (simp add: tx(1) host_port_text_def port_str_def)
  have v: "\<not> (of_nat (unat p mod 256) > (0xFF :: 64 word))"
    by (simp add: word_less_nat_alt unat_of_nat)
  have s: "\<not> sint (of_nat (unat p div 256) :: 16 word) > 0xFF"
    using port_bytes [of p] by (simp only: sint_small)
  have c: "CHR '','' \<notin> set (dec (unat p mod 256) @ t)" using tx(2) by (auto simp: dec_no_special)
  show ?thesis
    unfolding get_address_parse [OF tx' dec_no_special(4) c mem w] port_loop_port [OF port_bytes tx(2)]
    using v s by (simp add: join_port Let_def)
qed

text \<open>Numbers are read modulo \<open>2 ^ 64\<close>.\<close>

lemma port_loop_wrap:
  assumes "e mod 2 ^ 64 < 256"
  shows "port_loop True 0 0 (dec e @ ''.'' @ dec f) =
    Some (of_nat (e mod 2 ^ 64), of_nat (f mod 2 ^ 64))"
proof -
  have w: "(of_nat n :: 64 word) = of_nat (n mod 2 ^ 64)" for n
    by (simp only: word_unat_eq_iff unat_of_nat) simp
  define x where "x = e mod 2 ^ 64"
  have x: "x < 256" and e: "(of_nat e :: 64 word) = of_nat x" using assms w by (simp_all add: x_def)
  have "\<not> (of_nat x > (0xFF :: 64 word))" using x by (simp add: word_less_nat_alt unat_of_nat)
  moreover have "ucast (of_nat x :: 64 word) = (of_nat x :: 16 word)"
    using x by (simp add: unsigned_of_nat take_bit_nat_eq_self)
  moreover have "port_loop False p 0 (dec f) = Some (p, of_nat f)" for p
    using port_loop_dec [of False p f "[]"] by simp
  ultimately show ?thesis
    unfolding x_def [symmetric] w [of f, symmetric]
    by (simp add: port_loop_dec e isdigit_def code_def)
qed

subsection \<open>Round trip\<close>

lemma fields_no_delim: "\<forall>c \<in> set s. \<not> is_delim c \<Longrightarrow> fields s = [s]"
  by (induction s) auto

lemma fields_append:
  "\<forall>c \<in> set s. \<not> is_delim c \<Longrightarrow> is_delim d \<Longrightarrow> fields (s @ d # t) = s # fields t"
  by (induction s) auto

lemma dec_no_delim: "\<forall>c \<in> set (dec n). \<not> is_delim c"
  using dec_no_special by (auto simp: is_delim_def)

lemma dec_has_xdigit: "has_xdigit (dec n)"
proof -
  have "hd (dec n) \<in> set (dec n)" by simp
  then show ?thesis using dec_digit isdigit_not_special(9) unfolding has_xdigit_def by blast
qed

lemma host_port_fields:
  "fields (host_port_text (h1, h2, h3, h4) p) =
     [dec (unat h1), dec (unat h2), dec (unat h3), dec (unat h4), dec (unat p div 256), dec (unat p mod 256)]"
proof -
  have c: "is_delim (CHR '','')" by (simp add: is_delim_def)
  show ?thesis
    unfolding host_port_text_def dots_to_commas_ntoa port_str_def
    by (simp add: fields_append [OF dec_no_delim c] fields_no_delim [OF dec_no_delim])
qed

lemma host_port_chars: "c \<in> set (host_port_text a p) \<Longrightarrow> c \<noteq> CR \<and> c \<noteq> LF \<and> c \<noteq> NUL"
proof (cases a)
  case (fields h1 h2 h3 h4)
  assume "c \<in> set (host_port_text a p)"
  then show ?thesis
    unfolding host_port_text_def fields dots_to_commas_ntoa port_str_def using dec_no_special by auto
qed

lemma host_port_is_port_command:
  assumes "5 + length (host_port_text a p) < n"
  shows "port_command_spec (''PORT '' @ host_port_text a p @ LF # r) n"
proof -
  have "port_argument (''PORT '' @ host_port_text a p @ LF # r) n = host_port_text a p"
  proof -
    have "take (n - 5) (host_port_text a p @ LF # r) =
        host_port_text a p @ LF # take (n - 6 - length (host_port_text a p)) r"
    proof -
      obtain k where "n = Suc (5 + length (host_port_text a p)) + k"
        using less_imp_Suc_add [OF assms] by auto
      then show ?thesis by (simp add: take_Cons')
    qed
    moreover have "drop 5 (''PORT '' @ host_port_text a p @ LF # r) = host_port_text a p @ LF # r"
      by (simp add: eval_nat_numeral)
    moreover have "\<forall>c \<in> set (host_port_text a p). c \<noteq> CR \<and> c \<noteq> LF \<and> c \<noteq> NUL"
      using host_port_chars by blast
    ultimately show ?thesis
      unfolding port_argument_def by (simp add: takeWhile_append_stop)
  qed
  moreover have "take 4 (''PORT '' @ host_port_text a p @ LF # r) = ''PORT''"
    by (simp add: eval_nat_numeral)
  moreover have "5 \<le> n" using assms by simp
  ultimately show ?thesis
    by (cases a) (auto simp: port_command_spec_def host_port_fields dec_has_xdigit)
qed

lemma port_command_roundtrip_run:
  assumes "30 \<le> length dest" "script w = r1 # r2 # rs" "rv (r1 Malloc) \<noteq> 0" "rv (r2 Malloc) \<noteq> 0"
  shows "\<exists>buf n. write_port_command a p dest = Inr buf \<and> strlen buf = Inr n \<and>
    is_port_command (Some buf) (int n) = Inr True \<and>
    get_address_from_port_command (drop 5 buf) (int n) w =
      Inr (Some \<lparr>sin_family = AF_INET, sin_port = htons p, sin_addr = a\<rparr>,
           w\<lparr>script := rs, trace := Malloc # Malloc # trace w, blocks := Suc (blocks w)\<rparr>)"
proof -
  let ?h = "host_port_text a p"
  define n where "n = length (port_command_text a p)"
  define r where "r = drop (n + 1) dest"
  define buf where "buf = port_command_text a p @ NUL # r"
  have n: "n = 6 + length ?h" by (simp add: n_def port_command_text_host_port)
  have run: "write_port_command a p dest = Inr buf"
    using write_port_command_run [OF assms(1)] by (simp add: buf_def r_def n_def)
  have len: "strlen buf = Inr n"
    using port_command_text_no_nul by (simp add: buf_def n_def strlen_lit)
  have fits: "n \<le> length buf" by (simp add: buf_def n_def)
  have buf: "buf = ''PORT '' @ ?h @ LF # NUL # r"
    by (simp add: buf_def port_command_text_host_port)
  have "port_command_spec buf n"
    unfolding buf by (rule host_port_is_port_command) (simp add: n)
  then have rec: "is_port_command (Some buf) (int n) = Inr True"
    using is_port_command_run [of "int n" buf] fits by simp
  have d: "drop 5 buf = (?h @ [LF]) @ NUL # r" by (simp add: buf eval_nat_numeral)
  have t: "take n (drop 5 buf) = (?h @ [LF]) @ NUL # take 4 r"
    unfolding d n by (simp add: take_Cons' eval_nat_numeral)
  have c: "cstr (take (nat (int n)) (drop 5 buf)) = ?h @ [LF]"
    unfolding nat_int t by (rule cstr_lit) (simp add: host_port_text_no_nul)
  have "get_address_from_port_command (drop 5 buf) (int n) w =
      Inr (Some \<lparr>sin_family = AF_INET, sin_port = htons p, sin_addr = a\<rparr>,
           w\<lparr>script := rs, trace := Malloc # Malloc # trace w, blocks := Suc (blocks w)\<rparr>)"
    by (rule get_address_run [OF c _ _ assms(2-4)]) (auto simp: t)
  with run len rec show ?thesis by blast
qed

subsection \<open>Properties\<close>

text \<open>C14: \<open>is_port_command\<close> reads nothing outside a buffer of \<open>n\<close> bytes and decides exactly the
  following: the text begins with PORT, and what follows its fifth byte, cut at the first line
  end or NUL, has six fields separated by commas or full stops of which the first five have a
  hexadecimal digit each.\<close>

theorem is_port_command_decides:
  assumes "nat n \<le> length buf"
  shows "is_port_command (Some buf) n = Inr (port_command_spec buf (nat n))"
  by (rule is_port_command_run [OF assms])

theorem is_port_command_decides_witness:
  "is_port_command (Some ''PORT 10,0,0,1,4,2'') 17 = Inr True"
proof -
  have "port_command_spec ''PORT 10,0,0,1,4,2'' (nat 17)" by code_simp
  then show ?thesis using is_port_command_decides [of 17 "''PORT 10,0,0,1,4,2''"] by simp
qed

text \<open>C33: \<open>generate_port_command\<close> on an open socket and a buffer of at least 30 bytes stays inside
  the buffer, writes the PORT command for the socket's own address with its terminator,
  leaves the rest of the buffer alone, and returns the length of the text, at most 29.\<close>

theorem generate_port_command_text:
  assumes "0 \<le> f" "30 \<le> length dest" "script w = r # rs" "0 \<le> rv (r (Getsockname f))"
  shows "\<exists>txt. txt = port_command_text (sin_addr (sname (r (Getsockname f))))
                 (ntohs (sin_port (sname (r (Getsockname f))))) \<and> length txt \<le> 29 \<and>
    generate_port_command f (Some dest) w =
      Inr (int (length txt), Some (txt @ NUL # drop (length txt + 1) dest),
           w\<lparr>script := rs, trace := Getsockname f # trace w\<rparr>)"
  using assms port_command_text_length port_command_text_no_nul
  by (simp add: generate_port_command_def getsockname_def sys_def write_port_command_run strlen_lit)

definition own_address :: "call \<Rightarrow> reply" where
  "own_address c = (answer 0 c)\<lparr>sname := \<lparr>sin_family = AF_INET, sin_port = htons 1026, sin_addr = (10, 0, 0, 1)\<rparr>\<rparr>"

theorem generate_port_command_text_witness:
  "\<exists>d w'. generate_port_command 7 (Some (replicate 30 NUL)) (boot [own_address]) = Inr (18, d, w')"
proof -
  have *: "length (port_command_text (10, 0, 0, 1) 1026) = 18" by code_simp
  show ?thesis
    using generate_port_command_text [of 7 "replicate 30 NUL" "boot [own_address]" own_address "[]"]
    by (auto simp: boot_def own_address_def answer_def * simp del: htons_def)
qed

text \<open>C34: Reading a PORT argument back: whatever the host and port are, and whether the line ends in
  CR LF, LF or nothing, \<open>get_address_from_port_command\<close> returns the address that the argument
  denotes, with the port in network byte order, and frees its temporary copy.\<close>

theorem get_address_reads_argument:
  assumes "cstr (take (nat n) buf) = host_port_text a p @ t" "set t \<subseteq> {CR, LF}"
    and "NUL \<in> set (take (nat n) buf) \<or> nat n \<le> length buf"
    and "script w = r1 # r2 # rs" "rv (r1 Malloc) \<noteq> 0" "rv (r2 Malloc) \<noteq> 0"
  shows "get_address_from_port_command buf n w =
    Inr (Some \<lparr>sin_family = AF_INET, sin_port = htons p, sin_addr = a\<rparr>,
         w\<lparr>script := rs, trace := Malloc # Malloc # trace w, blocks := Suc (blocks w)\<rparr>)"
  by (rule get_address_run [OF assms])

theorem get_address_reads_argument_witness:
  "\<exists>w'. get_address_from_port_command (''10,0,0,1,4,2'' @ [CR, LF, NUL]) 14 (boot [answer 1, answer 1]) =
     Inr (Some \<lparr>sin_family = AF_INET, sin_port = htons 1026, sin_addr = (10, 0, 0, 1)\<rparr>, w')"
proof -
  have *: "cstr (take (nat 14) (''10,0,0,1,4,2'' @ [CR, LF, NUL])) = host_port_text (10, 0, 0, 1) 1026 @ [CR, LF]"
    by code_simp
  show ?thesis
    using get_address_reads_argument [OF *, of "boot [answer 1, answer 1]" "answer 1" "answer 1" "[]"]
    by (simp add: boot_def answer_def)
qed

text \<open>C35: The fields of the port are read into an \<open>unsigned long\<close> that wraps, so a field is accepted
  when its value modulo \<open>2 ^ 64\<close> is a byte: the address returned has the port made of the two
  remainders, not a parse error.\<close>

theorem get_address_wraps:
  assumes "cstr (take (nat n) buf) = dots_to_commas (inet_ntoa a) @ '','' @ dec e @ '','' @ dec f"
    and "e mod 2 ^ 64 < 256" "f mod 2 ^ 64 < 256" "nat n \<le> length buf"
    and "script w = r1 # r2 # rs" "rv (r1 Malloc) \<noteq> 0" "rv (r2 Malloc) \<noteq> 0"
  shows "get_address_from_port_command buf n w =
    Inr (Some \<lparr>sin_family = AF_INET, sin_port = htons (of_nat (e mod 2 ^ 64 * 256 + f mod 2 ^ 64)),
               sin_addr = a\<rparr>,
         w\<lparr>script := rs, trace := Malloc # Malloc # trace w, blocks := Suc (blocks w)\<rparr>)"
proof -
  define x y where "x = e mod 2 ^ 64" and "y = f mod 2 ^ 64"
  have xy: "x < 256" "y < 256" using assms(2,3) by (simp_all add: x_def y_def)
  have v: "\<not> (of_nat y > (0xFF :: 64 word))" "\<not> sint (of_nat x :: 16 word) > 0xFF"
    using xy by (simp_all add: word_less_nat_alt unat_of_nat sint_small del: of_nat_less_iff)
  have "push_bit 8 (of_nat x) + ucast (of_nat y :: 64 word) = (of_nat (x * 256 + y) :: 16 word)"
    using xy by (simp add: push_bit_eq_mult unsigned_of_nat take_bit_nat_eq_self)
  with v show ?thesis
    using get_address_parse [OF assms(1) dec_no_special(4) dec_no_special(4) disjI2 [OF assms(4)] assms(5-7)]
    unfolding port_loop_wrap [OF assms(2)] x_def [symmetric] y_def [symmetric] by (simp add: Let_def)
qed

theorem get_address_wraps_witness:
  "\<exists>w'. get_address_from_port_command ''1,2,3,4,18446744073709551621,6'' 30 (boot [answer 1, answer 1]) =
     Inr (Some \<lparr>sin_family = AF_INET, sin_port = htons 1286, sin_addr = (1, 2, 3, 4)\<rparr>, w')"
proof -
  have *: "cstr (take (nat 30) ''1,2,3,4,18446744073709551621,6'') =
      dots_to_commas (inet_ntoa (1, 2, 3, 4)) @ '','' @ dec 18446744073709551621 @ '','' @ dec 6"
    by (simp add: cstr_def dec.simps digit_chars)
  show ?thesis
    using get_address_wraps [OF *, of "boot [answer 1, answer 1]" "answer 1" "answer 1" "[]"]
    by (simp add: boot_def answer_def)
qed

text \<open>A PORT argument whose port text has a character that is neither a digit nor a full stop nor a
  line end is refused, and the block for the address stays allocated: nothing can free it any more.\<close>

theorem get_address_leaks:
  assumes "cstr (take (nat n) buf) = dots_to_commas (inet_ntoa a) @ '','' @ dec e @ '','' @ x # t"
    and "e < 256" "\<not> isdigit x" "x \<notin> {CR, LF, CHR ''.'', CHR '',''}" "CHR '','' \<notin> set t"
    and "nat n \<le> length buf" "script w = r1 # r2 # rs" "rv (r1 Malloc) \<noteq> 0" "rv (r2 Malloc) \<noteq> 0"
  shows "get_address_from_port_command buf n w =
    Inr (None, w\<lparr>script := rs, trace := Malloc # Malloc # trace w, blocks := Suc (blocks w)\<rparr>)"
proof -
  have "CHR '','' \<notin> set (x # t)" using assms(4,5) by auto
  moreover have "port_loop True 0 0 (dec e @ ''.'' @ x # t) = None"
    using assms(2-4) by (auto simp: port_loop_dec isdigit_def code_def)
  ultimately show ?thesis
    using get_address_parse [OF assms(1) dec_no_special(4) _ disjI2 [OF assms(6)] assms(7-9)]
    by (simp add: Let_def)
qed

theorem get_address_leaks_witness:
  "\<exists>w'. get_address_from_port_command ''1,2,3,4,5,x'' 11 (boot [answer 1, answer 1]) = Inr (None, w')
     \<and> blocks w' = 1"
proof -
  have *: "cstr (take (nat 11) ''1,2,3,4,5,x'') =
      dots_to_commas (inet_ntoa (1, 2, 3, 4)) @ '','' @ dec 5 @ '','' @ CHR ''x'' # []"
    by code_simp
  show ?thesis
    using get_address_leaks [OF *, of "boot [answer 1, answer 1]" "answer 1" "answer 1" "[]"]
    by (simp add: boot_def answer_def isdigit_def code_def)
qed

text \<open>C13: Round trip: the command \<open>write_port_command\<close> leaves in a buffer is recognised by
  \<open>is_port_command\<close>, and \<open>get_address_from_port_command\<close> reads from it the host and port it
  was written for.\<close>

theorem port_command_roundtrip:
  assumes "30 \<le> length dest" "script w = r1 # r2 # rs" "rv (r1 Malloc) \<noteq> 0" "rv (r2 Malloc) \<noteq> 0"
  shows "\<exists>buf n. write_port_command a p dest = Inr buf \<and> strlen buf = Inr n \<and>
    is_port_command (Some buf) (int n) = Inr True \<and>
    get_address_from_port_command (drop 5 buf) (int n) w =
      Inr (Some \<lparr>sin_family = AF_INET, sin_port = htons p, sin_addr = a\<rparr>,
           w\<lparr>script := rs, trace := Malloc # Malloc # trace w, blocks := Suc (blocks w)\<rparr>)"
  by (rule port_command_roundtrip_run [OF assms])

theorem port_command_roundtrip_witness:
  "\<exists>buf. write_port_command (10, 0, 0, 1) 1026 (replicate 4096 NUL) = Inr buf \<and>
     is_port_command (Some buf) 18 = Inr True"
proof -
  have *: "length (port_command_text (10, 0, 0, 1) 1026) = 18" by code_simp
  have "(30::nat) \<le> length (replicate 4096 NUL)" by simp
  then show ?thesis
    using port_command_roundtrip [of "replicate 4096 NUL" "boot [answer 1, answer 1]" "answer 1" "answer 1"
        "[]" "(10, 0, 0, 1)" 1026]
      write_port_command_run [of "replicate 4096 NUL" "(10, 0, 0, 1)" 1026]
      strlen_lit [OF port_command_text_no_nul, of "(10, 0, 0, 1)" 1026]
    by (auto simp: boot_def answer_def *)
qed

end
