(* ===== verification/Sockets.thy ===== *)
theory Sockets
  imports Packet Utils
begin

section \<open>socket.c: buffered sockets\<close>

text \<open>
  \<open>src/socket.c\<close> and the part of \<open>src/session.c\<close> that fills a socket's buffer. The enumerators
  of the error types are kept as constructors; all \<open>..._SUCCESS\<close> enumerators are 0 in the
  code, so a comparison with the one of another type is a comparison with the one of this type.
  Messages to the error log are left out.
\<close>

datatype socket_error_type =
    SOCKET_SUCCESS | SOCKET_INVALID | SOCKET_ALLOC_FAILED | SOCKET_OPEN_SOCKET_FAILED
  | SOCKET_FLAG_CONTROL_FAILED | SOCKET_READY_FAILED | SOCKET_OPTION_FAILED
  | SOCKET_EPOLL_CTL_FAILED

definition COMMAND_BUFFER_SIZE :: nat where "COMMAND_BUFFER_SIZE = 4096"
definition DATA_BUFFER_SIZE :: nat where "DATA_BUFFER_SIZE = 32768"

text \<open>\<open>BUFSIZ\<close> of the C library.\<close>

definition DEFAULT_BUFFER_SIZE :: nat where "DEFAULT_BUFFER_SIZE = 8192"

definition zero_socket :: socket where
  "zero_socket = \<lparr>sk_fd = 0, sk_buffer = None, sk_buffer_size = 0, sk_buffer_used = 0,
     sk_address = zero_addr\<rparr>"

definition socket_free :: "ptr \<Rightarrow> world \<Rightarrow> (socket_error_type \<times> world) cres" where
  "socket_free target_socket w =
     seq (nonnull target_socket) (\<lambda>nn.
     if \<not> nn then Inr (SOCKET_INVALID, w) else
     seq (load_socket target_socket w) (\<lambda>s.
     seq (if sk_buffer s \<noteq> None then upd_socket target_socket (\<lambda>s. s\<lparr>sk_buffer := None\<rparr>) w
          else Inr w) (\<lambda>w.
     let w = (if sk_fd s \<ge> 0 then close_fd (sk_fd s) (shutdown_fd (sk_fd s) w) else w) in
     seq (free_socket target_socket w) (\<lambda>w. Inr (SOCKET_SUCCESS, w)))))"

definition socket_set_buffer_size :: "ptr \<Rightarrow> nat \<Rightarrow> world \<Rightarrow> (socket_error_type \<times> world) cres" where
  "socket_set_buffer_size target_socket buffer_size w =
     seq (nonnull target_socket) (\<lambda>nn.
     if \<not> nn then Inr (SOCKET_INVALID, w) else
     seq (fd_of target_socket w) (\<lambda>f.
     seq (sys_rc (Setsockopt f) w) (\<lambda>(ret, w).
     if ret < 0 then Inr (SOCKET_OPTION_FAILED, w) else
     seq (fd_of target_socket w) (\<lambda>f.
     seq (sys_rc (Setsockopt f) w) (\<lambda>(ret, w).
     if ret < 0 then Inr (SOCKET_OPTION_FAILED, w) else
     Inr (SOCKET_SUCCESS, w))))))"

definition socket_set_nonblock_mode :: "int \<Rightarrow> world \<Rightarrow> (socket_error_type \<times> world) cres" where
  "socket_set_nonblock_mode socket_fd w =
     (if socket_fd = -1 then Inr (SOCKET_INVALID, w) else
     seq (sys_rc (Fcntl_getfl socket_fd) w) (\<lambda>(flags, w).
     if flags < 0 then Inr (SOCKET_FLAG_CONTROL_FAILED, w) else
     seq (sys_rc (Fcntl_setfl socket_fd) w) (\<lambda>(ret, w).
     if ret < 0 then Inr (SOCKET_FLAG_CONTROL_FAILED, w) else
     Inr (SOCKET_SUCCESS, w))))"

definition socket_init ::
  "ptr \<Rightarrow> int \<Rightarrow> nat \<Rightarrow> sockaddr \<Rightarrow> world \<Rightarrow> (socket_error_type \<times> world) cres" where
  "socket_init target_socket socket_fd buffer_size addr w =
     (let buffer_size = (if buffer_size \<le> 0 then DEFAULT_BUFFER_SIZE else buffer_size) in
     seq (upd_socket target_socket (\<lambda>s. s\<lparr>sk_fd := socket_fd\<rparr>) w) (\<lambda>w.
     seq (socket_set_buffer_size target_socket buffer_size w) (\<lambda>(ret, w).
     if ret \<noteq> SOCKET_SUCCESS
     then seq (socket_free target_socket w) (\<lambda>(_, w). Inr (SOCKET_ALLOC_FAILED, w)) else
     seq (upd_socket target_socket (\<lambda>s. s\<lparr>sk_buffer_used := 0, sk_buffer_size := buffer_size\<rparr>) w) (\<lambda>w.
     seq (malloc w) (\<lambda>(ok, w).
     if \<not> ok
     then seq (upd_socket target_socket (\<lambda>s. s\<lparr>sk_buffer := None\<rparr>) w) (\<lambda>w.
          seq (socket_free target_socket w) (\<lambda>(_, w). Inr (SOCKET_ALLOC_FAILED, w))) else
     seq (upd_socket target_socket (\<lambda>s. s\<lparr>sk_buffer := Some (replicate buffer_size NUL)\<rparr>) w) (\<lambda>w.
     seq (fd_of target_socket w) (\<lambda>f.
     seq (socket_set_nonblock_mode f w) (\<lambda>(ret, w).
     if ret \<noteq> SOCKET_SUCCESS
     then seq (socket_free target_socket w) (\<lambda>(_, w). Inr (SOCKET_FLAG_CONTROL_FAILED, w)) else
     seq (upd_socket target_socket
           (\<lambda>s. s\<lparr>sk_address := \<lparr>sin_family = AF_INET, sin_port = sin_port addr,
                                  sin_addr = sin_addr addr\<rparr>\<rparr>) w) (\<lambda>w.
     Inr (SOCKET_SUCCESS, w))))))))))"

definition socket_create_by_socket :: "int \<Rightarrow> nat \<Rightarrow> world \<Rightarrow> (ptr \<times> world) cres" where
  "socket_create_by_socket socket_fd buffer_size w =
     (if socket_fd = -1 then Inr (Null, w) else
     seq (alloc_socket zero_socket w) (\<lambda>(new_socket, w).
     if new_socket = Null then Inr (Null, w) else
     seq (getsockname socket_fd w) (\<lambda>(ret, name, w).
     let addr = (if ret < 0 then zero_addr else name) in
     seq (socket_init new_socket socket_fd buffer_size addr w) (\<lambda>(ret, w).
     if ret \<noteq> SOCKET_SUCCESS
     then seq (socket_free new_socket w) (\<lambda>(_, w). Inr (Null, w)) else
     Inr (new_socket, w)))))"

definition socket_create :: "nat \<Rightarrow> sockaddr option \<Rightarrow> world \<Rightarrow> (ptr \<times> world) cres" where
  "socket_create buffer_size addr w =
     (case addr of None \<Rightarrow> Inr (Null, w) | Some addr \<Rightarrow>
     seq (alloc_socket zero_socket w) (\<lambda>(new_socket, w).
     if new_socket = Null then Inr (Null, w) else
     seq (new_fd Socket w) (\<lambda>(socket_fd, r, w).
     if socket_fd < 0 then seq (free_socket new_socket w) (\<lambda>w. Inr (Null, w)) else
     seq (socket_init new_socket socket_fd buffer_size addr w) (\<lambda>(ret, w).
     if ret \<noteq> SOCKET_SUCCESS
     then seq (socket_free new_socket w) (\<lambda>(_, w). Inr (Null, w)) else
     Inr (new_socket, w)))))"

definition socket_connect :: "ptr \<Rightarrow> world \<Rightarrow> (socket_error_type \<times> world) cres" where
  "socket_connect target_socket w =
     seq (nonnull target_socket) (\<lambda>nn.
     if \<not> nn then Inr (SOCKET_INVALID, w) else
     seq (load_socket target_socket w) (\<lambda>s.
     seq (sys (Connect (sk_fd s) (sk_address s)) w) (\<lambda>(r, w).
     if rv r < 0 \<and> err r \<noteq> EINPROGRESS then Inr (SOCKET_READY_FAILED, w)
     else Inr (SOCKET_SUCCESS, w))))"

definition socket_listen :: "ptr \<Rightarrow> int \<Rightarrow> world \<Rightarrow> (socket_error_type \<times> world) cres" where
  "socket_listen target_socket backlog w =
     seq (nonnull target_socket) (\<lambda>nn.
     if \<not> nn then Inr (SOCKET_INVALID, w) else
     (let backlog = (if backlog < 0 then 0 else backlog) in
     seq (load_socket target_socket w) (\<lambda>s.
     seq (sys_rc (Bind (sk_fd s) (sk_address s)) w) (\<lambda>(ret, w).
     if ret < 0 then Inr (SOCKET_READY_FAILED, w) else
     seq (fd_of target_socket w) (\<lambda>f.
     seq (sys_rc (Listen f backlog) w) (\<lambda>(ret, w).
     if ret < 0 then Inr (SOCKET_READY_FAILED, w) else
     Inr (SOCKET_SUCCESS, w)))))))"

definition socket_add_to_epoll :: "int \<Rightarrow> int \<Rightarrow> world \<Rightarrow> (socket_error_type \<times> world) cres" where
  "socket_add_to_epoll epfd socket_fd w =
     (if epfd = -1 \<or> socket_fd = -1 then Inr (SOCKET_INVALID, w) else
     seq (epoll_ctl_add epfd socket_fd w) (\<lambda>(ret, w).
     if ret < 0 then Inr (SOCKET_EPOLL_CTL_FAILED, w)
     else Inr (SOCKET_SUCCESS, w)))"

subsection \<open>Filling a socket's buffer\<close>

datatype session_error_type =
    SESSION_SUCCESS | SESSION_INVALID_LIST | SESSION_ALLOC_FAILED | SESSION_INVALID_SOCKET
  | SESSION_INVALID_PARAMS | SESSION_INVALID_SESSION | SESSION_EPOLL_CTL_FAILED
  | SESSION_ADD_FAILED | SESSION_POLLING_WAIT_ERROR | SESSION_CONNECTION_CLOSED
  | SESSION_CONNECTION_ERROR

text \<open>\<open>memcpy\<close> of \<open>n\<close> bytes to offset \<open>off\<close> of a block.\<close>

definition memcpy_at :: "char list option \<Rightarrow> nat \<Rightarrow> char list \<Rightarrow> nat \<Rightarrow> char list cres" where
  "memcpy_at dest off src n =
     (case dest of None \<Rightarrow> Inl (UB Null_deref)
      | Some d \<Rightarrow> if length src < n \<or> length d < off + n then Inl (UB Out_of_bounds)
                  else Inr (take off d @ take n src @ drop (off + n) d))"

definition session_buffer_write ::
  "ptr \<Rightarrow> char list option \<Rightarrow> nat \<Rightarrow> world \<Rightarrow> (session_error_type \<times> world) cres" where
  "session_buffer_write target_socket buf buffer_size w =
     seq (nonnull target_socket) (\<lambda>nn.
     if \<not> nn then Inr (SESSION_INVALID_SOCKET, w) else
     (case buf of None \<Rightarrow> Inr (SESSION_INVALID_PARAMS, w) | Some src \<Rightarrow>
     if buffer_size \<le> 0 then Inr (SESSION_INVALID_PARAMS, w) else
     seq (load_socket target_socket w) (\<lambda>s.
     let buffer_used = sk_buffer_used s;
         buffer_size = (if buffer_size + buffer_used > sk_buffer_size s then sk_buffer_size s
                        else buffer_size) in
     seq (memcpy_at (sk_buffer s) buffer_used src buffer_size) (\<lambda>d.
     seq (upd_socket target_socket
           (\<lambda>s. s\<lparr>sk_buffer := Some d, sk_buffer_used := sk_buffer_used s + buffer_size\<rparr>) w) (\<lambda>w.
     Inr (SESSION_SUCCESS, w))))))"

subsection \<open>Buffers as queues\<close>

text \<open>A socket that has its buffer, and the bytes waiting in it.\<close>

definition sock_ok :: "socket \<Rightarrow> bool" where
  "sock_ok s = (case sk_buffer s of None \<Rightarrow> False
     | Some d \<Rightarrow> length d = sk_buffer_size s \<and> sk_buffer_used s \<le> sk_buffer_size s)"

definition queued :: "socket \<Rightarrow> char list" where
  "queued s = (case sk_buffer s of None \<Rightarrow> [] | Some d \<Rightarrow> take (sk_buffer_used s) d)"

text \<open>The socket after \<open>n\<close> bytes of \<open>src\<close> have been put behind those that are waiting.\<close>

definition enqueue :: "char list \<Rightarrow> nat \<Rightarrow> socket \<Rightarrow> socket" where
  "enqueue src n s = s\<lparr>sk_buffer := map_option (\<lambda>d. take (sk_buffer_used s) d @ take n src
        @ drop (sk_buffer_used s + n) d) (sk_buffer s),
     sk_buffer_used := sk_buffer_used s + n\<rparr>"

lemma sock_okE:
  assumes "sock_ok s"
  obtains d where "sk_buffer s = Some d" "length d = sk_buffer_size s" "sk_buffer_used s \<le> sk_buffer_size s"
  using assms by (auto simp: sock_ok_def split: option.splits)

lemma enqueue_queued:
  assumes "sock_ok s" "n \<le> length src" "sk_buffer_used s + n \<le> sk_buffer_size s"
  shows "queued (enqueue src n s) = queued s @ take n src" "sock_ok (enqueue src n s)"
    "sk_fd (enqueue src n s) = sk_fd s" "sk_address (enqueue src n s) = sk_address s"
    "sk_buffer_size (enqueue src n s) = sk_buffer_size s"
  using assms by (auto simp: queued_def enqueue_def sock_ok_def split: option.splits)

lemma session_buffer_write_run:
  assumes "socks w a = Some s" "sock_ok s" "0 < n" "n \<le> length src"
  shows "session_buffer_write (Ref a) (Some src) n w =
    (if n + sk_buffer_used s \<le> sk_buffer_size s
     then Inr (SESSION_SUCCESS, w\<lparr>socks := (socks w)(a \<mapsto> enqueue src n s)\<rparr>)
     else if sk_buffer_used s = 0 \<and> sk_buffer_size s \<le> length src
     then Inr (SESSION_SUCCESS, w\<lparr>socks := (socks w)(a \<mapsto> enqueue src (sk_buffer_size s) s)\<rparr>)
     else Inl (UB Out_of_bounds))"
proof -
  obtain d where "sk_buffer s = Some d" "length d = sk_buffer_size s" "sk_buffer_used s \<le> sk_buffer_size s"
    using assms(2) by (rule sock_okE)
  with assms(1,3,4) show ?thesis
    by (auto simp: session_buffer_write_def load_socket_def upd_socket_def memcpy_at_def enqueue_def Let_def)
qed

subsection \<open>Freeing\<close>

text \<open>The world after a socket was shut down, closed and freed.\<close>

definition dropped :: "nat \<Rightarrow> socket \<Rightarrow> world \<Rightarrow> world" where
  "dropped a s w = (if sk_fd s \<ge> 0 then close_fd (sk_fd s) (shutdown_fd (sk_fd s) w) else w)
     \<lparr>socks := (socks w)(a := None)\<rparr>"

lemma dropped_simps [simp]:
  "socks (dropped a s w) = (socks w)(a := None)" "clients (dropped a s w) = clients w"
  "servers (dropped a s w) = servers w" "sessions (dropped a s w) = sessions w"
  "saddrs (dropped a s w) = saddrs w" "links (dropped a s w) = links w"
  "goption (dropped a s w) = goption w" "brk (dropped a s w) = brk w" "script (dropped a s w) = script w"
  "sent (dropped a s w) = sent w" "blocks (dropped a s w) = blocks w"
  "strict_epoll (dropped a s w) = strict_epoll w"
  by (simp_all add: dropped_def close_fd_def shutdown_fd_def)

lemma dropped_fds:
  "0 \<le> sk_fd s \<Longrightarrow> open_fds (dropped a s w) = open_fds w - {sk_fd s}"
  "0 \<le> sk_fd s \<Longrightarrow> epoll_regs (dropped a s w) = epoll_regs w - {sk_fd s}"
  by (simp_all add: dropped_def close_fd_def shutdown_fd_def)

lemma socket_free_run:
  assumes "socks w a = Some s"
  shows "socket_free (Ref a) w = Inr (SOCKET_SUCCESS, dropped a s w)"
  using assms
  by (auto simp: socket_free_def load_socket_def upd_socket_def free_socket_def freed_def dropped_def
      close_fd_def shutdown_fd_def Let_def)

lemma socket_free_dead:
  assumes "socks w a = None"
  shows "socket_free (Ref a) w = Inl (UB Use_after_free)"
  using assms by (simp add: socket_free_def load_socket_def)

subsection \<open>Setting a socket up\<close>

text \<open>A socket as \<open>socket_init\<close> leaves it: its descriptor, an empty buffer, its address.\<close>

definition init_socket :: "int \<Rightarrow> nat \<Rightarrow> sockaddr \<Rightarrow> socket" where
  "init_socket k n addr = \<lparr>sk_fd = k, sk_buffer = Some (replicate n NUL), sk_buffer_size = n,
     sk_buffer_used = 0,
     sk_address = \<lparr>sin_family = AF_INET, sin_port = sin_port addr, sin_addr = sin_addr addr\<rparr>\<rparr>"

lemma init_socket_simps [simp]:
  "sk_fd (init_socket k n addr) = k" "sk_buffer_used (init_socket k n addr) = 0"
  "sk_buffer_size (init_socket k n addr) = n" "sock_ok (init_socket k n addr)"
  "queued (init_socket k n addr) = []"
  by (simp_all add: init_socket_def sock_ok_def queued_def)

text \<open>Do the five calls \<open>socket_init\<close> makes for descriptor \<open>k\<close> succeed?\<close>

definition init_calls_ok :: "int \<Rightarrow> (call \<Rightarrow> reply) list \<Rightarrow> bool" where
  "init_calls_ok k rs =
     (0 \<le> rv ((rs ! 0) (Setsockopt k)) \<and> 0 \<le> rv ((rs ! 1) (Setsockopt k)) \<and>
      rv ((rs ! 2) Malloc) \<noteq> 0 \<and> 0 \<le> rv ((rs ! 3) (Fcntl_getfl k)) \<and> 0 \<le> rv ((rs ! 4) (Fcntl_setfl k)))"

definition init_calls :: "int \<Rightarrow> call list" where
  "init_calls k = [Fcntl_setfl k, Fcntl_getfl k, Malloc, Setsockopt k, Setsockopt k]"

lemmas sock_defs = load_socket_def upd_socket_def fd_of_def sys_rc_def malloc_def sys_def

lemma socket_init_ok:
  assumes "socks w a = Some s" "script w = [o1, o2, b, g, l] @ rs" "init_calls_ok k [o1, o2, b, g, l]"
    and "0 < n" "0 \<le> k"
  shows "socket_init (Ref a) k n addr w = Inr (SOCKET_SUCCESS,
    w\<lparr>socks := (socks w)(a \<mapsto> init_socket k n addr), script := rs, trace := init_calls k @ trace w\<rparr>)"
  using assms
  by (cases w, cases s) (simp add: socket_init_def socket_set_buffer_size_def socket_set_nonblock_mode_def
      sock_defs init_calls_ok_def init_calls_def init_socket_def)

lemma socket_init_failed:
  assumes "socks w a = Some s" "script w = [o1, o2, b, g, l] @ rs" "\<not> init_calls_ok k [o1, o2, b, g, l]"
    and "0 < n" "0 \<le> k"
  shows "\<exists>e w'. socket_init (Ref a) k n addr w = Inr (e, w') \<and> e \<noteq> SOCKET_SUCCESS \<and>
    socks w' = (socks w)(a := None)"
proof -
  consider "rv (o1 (Setsockopt k)) < 0" | "0 \<le> rv (o1 (Setsockopt k))" "rv (o2 (Setsockopt k)) < 0"
    | "0 \<le> rv (o1 (Setsockopt k))" "0 \<le> rv (o2 (Setsockopt k))" "rv (b Malloc) = 0"
    | "0 \<le> rv (o1 (Setsockopt k))" "0 \<le> rv (o2 (Setsockopt k))" "rv (b Malloc) \<noteq> 0" "rv (g (Fcntl_getfl k)) < 0"
    | "0 \<le> rv (o1 (Setsockopt k))" "0 \<le> rv (o2 (Setsockopt k))" "rv (b Malloc) \<noteq> 0"
      "0 \<le> rv (g (Fcntl_getfl k))" "rv (l (Fcntl_setfl k)) < 0"
    using assms(3) by (simp add: init_calls_ok_def numeral_3_eq_3 numeral_2_eq_2) linarith
  then show ?thesis
    using assms(1,2,4,5)
    by cases (simp_all add: socket_init_def socket_set_buffer_size_def socket_set_nonblock_mode_def
        sock_defs socket_free_run)
qed

lemma socket_create_run:
  assumes "script w = [m, f, o1, o2, b, g, l] @ rs" "rv (m Malloc) \<noteq> 0"
    and "0 \<le> rv (f Socket)" "rv (f Socket) \<notin> open_fds w"
    and "init_calls_ok (rv (f Socket)) [o1, o2, b, g, l]" "0 < n"
  shows "socket_create n (Some addr) w = Inr (Ref (brk w),
    w\<lparr>socks := (socks w)(brk w \<mapsto> init_socket (rv (f Socket)) n addr), brk := Suc (brk w), script := rs,
      open_fds := insert (rv (f Socket)) (open_fds w), sent := (sent w)(rv (f Socket) := []),
      trace := init_calls (rv (f Socket)) @ [Socket, Malloc] @ trace w\<rparr>)"
  using assms
  by (simp add: socket_create_def alloc_socket_def malloc_def new_fd_def sys_def
      socket_init_ok [where s = zero_socket and ?o1.0 = o1 and ?o2.0 = o2 and b = b and g = g and l = l and rs = rs]
      fun_upd_twist)

text \<open>What any run that returns has done.\<close>

lemma dropped_other [simp]: "other_objects w (dropped a s w)"
  by (simp add: other_objects_def)

definition init_post :: "nat \<Rightarrow> int \<Rightarrow> nat \<Rightarrow> sockaddr \<Rightarrow> world \<Rightarrow> socket_error_type \<times> world \<Rightarrow> bool" where
  "init_post a k n addr w = (\<lambda>(e, w'). other_objects w w' \<and> brk w' = brk w \<and> sent w' = sent w \<and>
     (if e = SOCKET_SUCCESS
      then socks w' = (socks w)(a \<mapsto> init_socket k n addr) \<and> open_fds w' = open_fds w \<and> epoll_regs w' = epoll_regs w
      else socks w' = (socks w)(a := None)))"

lemma socket_init_gives:
  assumes "socks w a = Some s" "0 < n" "0 \<le> k"
  shows "gives (socket_init (Ref a) k n addr w) (init_post a k n addr w)"
  using assms
  by (cases s) (simp add: socket_init_def socket_set_buffer_size_def socket_set_nonblock_mode_def load_socket_def
      upd_socket_def fd_of_def sys_rc_def malloc_def gives_sys gives_if init_post_def socket_free_run
      other_objects_def init_socket_def Let_def)

definition create_post :: "nat \<Rightarrow> sockaddr \<Rightarrow> world \<Rightarrow> ptr \<times> world \<Rightarrow> bool" where
  "create_post n addr w = (\<lambda>(p, w'). other_objects w w' \<and>
     (if p = Null then socks w' = (socks w)(brk w := None) \<or> socks w' = socks w
      else p = Ref (brk w) \<and> brk w' = Suc (brk w) \<and> (\<exists>k. 0 \<le> k \<and> k \<notin> open_fds w \<and>
        socks w' = (socks w)(brk w \<mapsto> init_socket k n addr) \<and> open_fds w' = insert k (open_fds w) \<and>
        epoll_regs w' = epoll_regs w \<and> sent w' = (sent w)(k := []))))"

lemma create_post_Null:
  "other_objects w w' \<Longrightarrow> socks w' = (socks w)(brk w := None) \<or> socks w' = socks w \<Longrightarrow>
   create_post n addr w (Null, w')"
  by (simp add: create_post_def)

lemma socket_create_gives:
  assumes "0 < n"
  shows "gives (socket_create n (Some addr) w) (create_post n addr w)"
proof -
  have init: "gives (socket_init (Ref (brk w)) k n addr w1)
     (\<lambda>x. gives (case x of (ret, w') \<Rightarrow> if ret \<noteq> SOCKET_SUCCESS
        then seq (socket_free (Ref (brk w)) w') (\<lambda>(_, w). Inr (Null, w)) else Inr (Ref (brk w), w'))
      (create_post n addr w))"
    if "k \<notin> open_fds w" "\<not> k < 0" "w1 = w\<lparr>socks := (socks w)(brk w \<mapsto> zero_socket), brk := Suc (brk w), script := rs,
      trace := tr, open_fds := insert k (open_fds w), sent := (sent w)(k := [])\<rparr>" for k w1 rs tr
  proof (rule gives_mono [OF socket_init_gives [where s = zero_socket]])
    fix x assume "init_post (brk w) k n addr w1 x"
    with that show "gives (case x of (ret, w') \<Rightarrow> if ret \<noteq> SOCKET_SUCCESS
        then seq (socket_free (Ref (brk w)) w') (\<lambda>(_, w). Inr (Null, w)) else Inr (Ref (brk w), w'))
      (create_post n addr w)"
      by (auto simp: init_post_def create_post_def socket_free_dead other_objects_def split: prod.splits
          intro!: exI [of _ k])
  qed (use that assms in auto)
  show ?thesis
    by (auto simp: socket_create_def alloc_socket_def malloc_def new_fd_def gives_sys gives_if free_socket_def
        freed_def intro!: init create_post_Null) (simp_all add: other_objects_def)
qed

lemma socket_connect_gives:
  "socks w a = Some s \<Longrightarrow> gives (socket_connect (Ref a) w) (\<lambda>(e, w'). quiet w w')"
  by (auto simp: socket_connect_def load_socket_def gives_sys gives_if intro: quietI)

lemma socket_listen_gives:
  "socks w a = Some s \<Longrightarrow> gives (socket_listen (Ref a) b w) (\<lambda>(e, w'). quiet w w')"
  by (auto simp: socket_listen_def load_socket_def fd_of_def sys_rc_def gives_sys gives_if intro: quietI)

text \<open>Registering a descriptor: afterwards it is in the set, and if the system is strict, it was not.\<close>

definition added_post :: "int \<Rightarrow> world \<Rightarrow> socket_error_type \<times> world \<Rightarrow> bool" where
  "added_post f w = (\<lambda>(e, w'). other_objects w w' \<and> socks w' = socks w \<and> brk w' = brk w \<and>
     open_fds w' = open_fds w \<and> sent w' = sent w \<and>
     (if e = SOCKET_SUCCESS
      then epoll_regs w' = insert f (epoll_regs w) \<and> \<not> (strict_epoll w \<and> f \<in> epoll_regs w)
      else epoll_regs w' = epoll_regs w))"

lemma socket_add_to_epoll_gives: "gives (socket_add_to_epoll e f w) (added_post f w)"
  by (auto simp: socket_add_to_epoll_def epoll_ctl_add_def gives_sys gives_if added_post_def other_objects_def)

subsection \<open>Properties\<close>

text \<open>C15: \<open>session_buffer_write\<close> on a well-formed socket: bytes that fit are put behind those already
  waiting. Bytes that do not fit are cut to the size of the buffer, not to the room that is left: into an
  empty buffer that stores the first \<open>buffer_size\<close> bytes (when the packet has them), and with
  bytes waiting it writes outside the buffer.\<close>

theorem session_buffer_write_outcome:
  assumes "socks w a = Some s" "sock_ok s" "0 < n" "n \<le> length src"
  shows "session_buffer_write (Ref a) (Some src) n w =
    (if n + sk_buffer_used s \<le> sk_buffer_size s
     then Inr (SESSION_SUCCESS, w\<lparr>socks := (socks w)(a \<mapsto> enqueue src n s)\<rparr>)
     else if sk_buffer_used s = 0 \<and> sk_buffer_size s \<le> length src
     then Inr (SESSION_SUCCESS, w\<lparr>socks := (socks w)(a \<mapsto> enqueue src (sk_buffer_size s) s)\<rparr>)
     else Inl (UB Out_of_bounds))"
  by (rule session_buffer_write_run [OF assms])

definition one_socket :: "socket \<Rightarrow> (call \<Rightarrow> reply) list \<Rightarrow> world" where
  "one_socket s rs = (boot rs)\<lparr>socks := [0 \<mapsto> s], brk := 1, open_fds := {sk_fd s}\<rparr>"

theorem session_buffer_write_outcome_witness:
  "session_buffer_write (Ref 0) (Some ''NOOP'') 4
     (one_socket ((init_socket 5 6 zero_addr)\<lparr>sk_buffer_used := 3\<rparr>) []) = Inl (UB Out_of_bounds)"
proof -
  let ?s = "(init_socket 5 6 zero_addr)\<lparr>sk_buffer_used := 3\<rparr>"
  have "sock_ok ?s" by (simp add: sock_ok_def init_socket_def)
  then show ?thesis
    using session_buffer_write_outcome [of "one_socket ?s []" 0 ?s 4 "''NOOP''"]
    by (simp add: one_socket_def)
qed

text \<open>When memory, descriptor and the five set-up calls are granted, \<open>socket_create\<close> returns a new
  socket at a new address, with a descriptor that was not open before, an empty zeroed buffer of
  the size asked for and the address given, and changes no other object.\<close>

theorem socket_create_ok:
  assumes "script w = [m, f, o1, o2, b, g, l] @ rs" "rv (m Malloc) \<noteq> 0"
    and "0 \<le> rv (f Socket)" "rv (f Socket) \<notin> open_fds w"
    and "init_calls_ok (rv (f Socket)) [o1, o2, b, g, l]" "0 < n"
  shows "socket_create n (Some addr) w = Inr (Ref (brk w),
    w\<lparr>socks := (socks w)(brk w \<mapsto> init_socket (rv (f Socket)) n addr), brk := Suc (brk w), script := rs,
      open_fds := insert (rv (f Socket)) (open_fds w), sent := (sent w)(rv (f Socket) := []),
      trace := init_calls (rv (f Socket)) @ [Socket, Malloc] @ trace w\<rparr>)"
  by (rule socket_create_run [OF assms])

theorem socket_create_ok_witness:
  "\<exists>w'. socket_create 4096 (Some zero_addr) (boot [answer 1, answer 3, answer 0, answer 0, answer 1, answer 0, answer 0])
     = Inr (Ref 0, w') \<and> socks w' 0 = Some (init_socket 3 4096 zero_addr)"
  using socket_create_ok [of "boot [answer 1, answer 3, answer 0, answer 0, answer 1, answer 0, answer 0]"
      "answer 1" "answer 3" "answer 0" "answer 0" "answer 1" "answer 0" "answer 0" "[]" 4096 zero_addr]
  by (simp add: boot_def answer_def init_calls_ok_def)

text \<open>C38: When the socket exists but one of the five set-up calls fails (buffer sizes, memory for the
  buffer, non-blocking mode), \<open>socket_init\<close> frees the socket and \<open>socket_create\<close> frees it
  again: the error path always uses freed memory.\<close>

theorem socket_create_frees_twice:
  assumes "script w = [m, f, o1, o2, b, g, l] @ rs" "rv (m Malloc) \<noteq> 0"
    and "0 \<le> rv (f Socket)" "rv (f Socket) \<notin> open_fds w"
    and "\<not> init_calls_ok (rv (f Socket)) [o1, o2, b, g, l]" "0 < n"
  shows "socket_create n (Some addr) w = Inl (UB Use_after_free)"
proof -
  let ?k = "rv (f Socket)"
  let ?w = "w\<lparr>socks := (socks w)(brk w \<mapsto> zero_socket), brk := Suc (brk w), script := [o1, o2, b, g, l] @ rs,
      trace := Socket # Malloc # trace w, open_fds := insert ?k (open_fds w), sent := (sent w)(?k := [])\<rparr>"
  obtain e w' where "socket_init (Ref (brk w)) ?k n addr ?w = Inr (e, w')" "e \<noteq> SOCKET_SUCCESS"
      "socks w' (brk w) = None"
    using socket_init_failed [of ?w "brk w" zero_socket o1 o2 b g l rs ?k n addr] assms by auto
  then show ?thesis
    using assms(1-4)
    by (simp add: socket_create_def alloc_socket_def malloc_def new_fd_def sys_def socket_free_dead)
qed

theorem socket_create_frees_twice_witness:
  "socket_create 4096 (Some zero_addr) (boot [answer 1, answer 3, answer 0, answer (-1), answer 1, answer 0, answer 0])
     = Inl (UB Use_after_free)"
  by (rule socket_create_frees_twice [of _ "answer 1" "answer 3" "answer 0" "answer (-1)" "answer 1" "answer 0" "answer 0" "[]"])
    (simp_all add: boot_def answer_def init_calls_ok_def)

end
