(* ===== verification/Client.thy ===== *)
theory Client
  imports Sockets
begin

section \<open>client.c: the client side of a session\<close>

text \<open>
  The operations of \<open>src/client.c\<close> on a single client: creating and freeing it, connecting to
  its data port, and queueing bytes for it. The handlers that need the whole session
  (\<open>client_command_received\<close>, \<open>client_data_received\<close>) are in the theory \<open>Session\<close>.
\<close>

datatype port_type = PORT_TYPE_COMMAND | PORT_TYPE_DATA | PORT_TYPE_DATA_CONNECTION

datatype client_error_type =
    CLIENT_SUCCESS | CLIENT_INVALID | CLIENT_ALLOC_FAILED | CLIENT_INCORRECT_CONNECTION_STRING
  | CLIENT_SOCKET_CREATE_FAILED | CLIENT_NO_CLIENTS | CLIENT_POLLING_WAIT_ERROR
  | CLIENT_CONNECTION_CLOSED | CLIENT_CONNECTION_ERROR | CLIENT_INVALID_PARAM
  | CLIENT_PORT_PARSE_FAILED

definition zero_client :: client where
  "zero_client = \<lparr>cl_address = zero_addr, cl_command_socket = Null, cl_data_socket = Null\<rparr>"

text \<open>Frees the socket in a field and stores NULL there, if the field is not NULL.\<close>

definition client_drop_command :: "ptr \<Rightarrow> world \<Rightarrow> world cres" where
  "client_drop_command c w =
     seq (load_client c w) (\<lambda>s.
     seq (nonnull (cl_command_socket s)) (\<lambda>nn.
     if \<not> nn then Inr w else
     seq (socket_free (cl_command_socket s) w) (\<lambda>(_, w).
     upd_client c (\<lambda>s. s\<lparr>cl_command_socket := Null\<rparr>) w)))"

definition client_drop_data :: "ptr \<Rightarrow> world \<Rightarrow> world cres" where
  "client_drop_data c w =
     seq (load_client c w) (\<lambda>s.
     seq (nonnull (cl_data_socket s)) (\<lambda>nn.
     if \<not> nn then Inr w else
     seq (socket_free (cl_data_socket s) w) (\<lambda>(_, w).
     upd_client c (\<lambda>s. s\<lparr>cl_data_socket := Null\<rparr>) w)))"

definition client_free :: "ptr \<Rightarrow> world \<Rightarrow> (client_error_type \<times> world) cres" where
  "client_free target_client w =
     seq (nonnull target_client) (\<lambda>nn.
     if \<not> nn then Inr (CLIENT_INVALID, w) else
     seq (client_drop_command target_client w) (\<lambda>w.
     seq (client_drop_data target_client w) (\<lambda>w.
     seq (free_client target_client w) (\<lambda>w.
     Inr (CLIENT_SUCCESS, w)))))"

definition client_create :: "int \<Rightarrow> world \<Rightarrow> (ptr \<times> world) cres" where
  "client_create connected_socket w =
     seq (alloc_client zero_client w) (\<lambda>(new_client, w).
     if new_client = Null then Inr (Null, w) else
     seq (socket_create_by_socket connected_socket COMMAND_BUFFER_SIZE w) (\<lambda>(new_command_socket, w).
     if new_command_socket = Null
     then seq (client_free new_client w) (\<lambda>(_, w). Inr (Null, w)) else
     seq (upd_client new_client
           (\<lambda>s. s\<lparr>cl_command_socket := new_command_socket, cl_data_socket := Null\<rparr>) w) (\<lambda>w.
     seq (global_epoll_fd w) (\<lambda>e.
     seq (socket_add_to_epoll e connected_socket w) (\<lambda>(ret, w).
     if ret \<noteq> SOCKET_SUCCESS
     then seq (client_free new_client w) (\<lambda>(_, w). Inr (Null, w)) else
     Inr (new_client, w))))))"

definition client_connect :: "ptr \<Rightarrow> sockaddr option \<Rightarrow> world \<Rightarrow> (ptr \<times> world) cres" where
  "client_connect target_client target_address w =
     seq (nonnull target_client) (\<lambda>nn.
     if \<not> nn \<or> target_address = None then Inr (Null, w) else
     seq (socket_create DATA_BUFFER_SIZE target_address w) (\<lambda>(new_socket, w).
     if new_socket = Null then Inr (Null, w) else
     seq (socket_connect new_socket w) (\<lambda>(ret, w).
     if ret \<noteq> SOCKET_SUCCESS
     then seq (socket_free new_socket w) (\<lambda>(_, w). Inr (Null, w)) else
     seq (upd_client target_client (\<lambda>s. s\<lparr>cl_data_socket := new_socket\<rparr>) w) (\<lambda>w.
     seq (global_epoll_fd w) (\<lambda>e.
     seq (fd_of new_socket w) (\<lambda>f.
     seq (socket_add_to_epoll e f w) (\<lambda>(ret, w).
     if ret \<noteq> SOCKET_SUCCESS
     then seq (socket_free new_socket w) (\<lambda>(_, w). Inr (Null, w)) else
     Inr (new_socket, w))))))))"

definition send_packet_to_client ::
  "ptr \<Rightarrow> char list option \<Rightarrow> int \<Rightarrow> port_type \<Rightarrow> world \<Rightarrow> (client_error_type \<times> world) cres" where
  "send_packet_to_client target_client buf received_bytes port w =
     (let new_buffer_size = received_bytes in
     seq (nonnull target_client) (\<lambda>nn.
     if \<not> nn then Inr (CLIENT_INVALID, w) else
     if buf = None then Inr (CLIENT_INVALID_PARAM, w) else
     if port = PORT_TYPE_DATA_CONNECTION then Inr (CLIENT_INVALID_PARAM, w) else
     seq (load_client target_client w) (\<lambda>c.
     let target_socket = (if port = PORT_TYPE_COMMAND then cl_command_socket c
                          else cl_data_socket c) in
     if new_buffer_size > 0
     then seq (session_buffer_write target_socket buf (nat new_buffer_size) w)
            (\<lambda>(_, w). Inr (CLIENT_SUCCESS, w))
     else Inr (CLIENT_SUCCESS, w))))"

subsection \<open>Freeing a client\<close>

lemma client_drop_command_run:
  assumes "clients w c = Some s" "cl_command_socket s = Ref a" "socks w a = Some t"
  shows "client_drop_command (Ref c) w =
    Inr ((dropped a t w)\<lparr>clients := (clients w)(c \<mapsto> s\<lparr>cl_command_socket := Null\<rparr>)\<rparr>)"
  using assms by (simp add: client_drop_command_def load_client_def upd_client_def socket_free_run)

lemma client_drop_data_run:
  assumes "clients w c = Some s" "cl_data_socket s = Ref a" "socks w a = Some t"
  shows "client_drop_data (Ref c) w =
    Inr ((dropped a t w)\<lparr>clients := (clients w)(c \<mapsto> s\<lparr>cl_data_socket := Null\<rparr>)\<rparr>)"
  using assms by (simp add: client_drop_data_def load_client_def upd_client_def socket_free_run)

lemma client_drop_data_Null:
  "clients w c = Some s \<Longrightarrow> cl_data_socket s = Null \<Longrightarrow> client_drop_data (Ref c) w = Inr w"
  by (simp add: client_drop_data_def load_client_def)

lemma client_free_no_data:
  assumes "clients w c = Some s" "cl_command_socket s = Ref a" "socks w a = Some t" "cl_data_socket s = Null"
  shows "client_free (Ref c) w = Inr (CLIENT_SUCCESS, (dropped a t w)\<lparr>clients := (clients w)(c := None)\<rparr>)"
  using assms
  by (simp add: client_free_def client_drop_command_run client_drop_data_def load_client_def free_client_def freed_def)

lemma client_free_run:
  assumes "clients w c = Some s" "cl_command_socket s = Ref a" "socks w a = Some t"
    and "cl_data_socket s = Ref d" "socks w d = Some u" "a \<noteq> d"
  shows "client_free (Ref c) w =
    Inr (CLIENT_SUCCESS, (dropped d u (dropped a t w))\<lparr>clients := (clients w)(c := None)\<rparr>)"
  using assms
  by (simp add: client_free_def client_drop_command_run client_drop_data_def load_client_def upd_client_def
      socket_free_run free_client_def freed_def dropped_def close_fd_def shutdown_fd_def)

subsection \<open>Connecting to the client's data port\<close>

text \<open>The first eight calls of \<open>client_connect\<close> are granted: a socket with descriptor \<open>k\<close>, connected.\<close>

definition connect_granted :: "world \<Rightarrow> sockaddr \<Rightarrow> int \<Rightarrow> (call \<Rightarrow> reply) list \<Rightarrow> bool" where
  "connect_granted w addr k calls =
     (length calls = 8 \<and> rv ((calls ! 0) Malloc) \<noteq> 0 \<and> rv ((calls ! 1) Socket) = k \<and> 0 \<le> k \<and>
      k \<notin> open_fds w \<and> k \<notin> epoll_regs w \<and> init_calls_ok k (take 5 (drop 2 calls)) \<and>
      (0 \<le> rv ((calls ! 7) (Connect k addr)) \<or> err ((calls ! 7) (Connect k addr)) = EINPROGRESS))"

lemma length_8:
  "length xs = 8 \<longleftrightarrow> (\<exists>a b c d e f g h. xs = [a, b, c, d, e, f, g, h])"
  by (auto simp: eval_nat_numeral length_Suc_conv)

text \<open>The world when the socket is connected and stored in the client, before it is registered.\<close>

definition data_connected :: "nat \<Rightarrow> client \<Rightarrow> socket \<Rightarrow> (call \<Rightarrow> reply) list \<Rightarrow> world \<Rightarrow> world" where
  "data_connected c s t rs w = w\<lparr>socks := (socks w)(brk w \<mapsto> t), brk := Suc (brk w),
     open_fds := insert (sk_fd t) (open_fds w), sent := (sent w)(sk_fd t := []), script := rs,
     trace := Connect (sk_fd t) (sk_address t) # init_calls (sk_fd t) @ [Socket, Malloc] @ trace w,
     clients := (clients w)(c \<mapsto> s\<lparr>cl_data_socket := Ref (brk w)\<rparr>)\<rparr>"

lemma data_connected_simps [simp]:
  "socks (data_connected c s t rs w) = (socks w)(brk w \<mapsto> t)"
  "clients (data_connected c s t rs w) = (clients w)(c \<mapsto> s\<lparr>cl_data_socket := Ref (brk w)\<rparr>)"
  "goption (data_connected c s t rs w) = goption w" "script (data_connected c s t rs w) = rs"
  "epoll_regs (data_connected c s t rs w) = epoll_regs w" "brk (data_connected c s t rs w) = Suc (brk w)"
  "open_fds (data_connected c s t rs w) = insert (sk_fd t) (open_fds w)"
  by (simp_all add: data_connected_def)

lemma sizes_pos [simp]: "0 < COMMAND_BUFFER_SIZE" "0 < DATA_BUFFER_SIZE"
  by (simp_all add: COMMAND_BUFFER_SIZE_def DATA_BUFFER_SIZE_def)

lemma client_connect_start:
  assumes "clients w c = Some s" "script w = calls @ rs"
    and "connect_granted w (sk_address (init_socket k DATA_BUFFER_SIZE addr)) k calls"
    and "goption w = Some g"
  shows "client_connect (Ref c) (Some addr) w =
    seq (socket_add_to_epoll (opt_epoll_fd g) k (data_connected c s (init_socket k DATA_BUFFER_SIZE addr) rs w))
      (\<lambda>(ret, w'). if ret \<noteq> SOCKET_SUCCESS then seq (socket_free (Ref (brk w)) w') (\<lambda>(_, w). Inr (Null, w))
                   else Inr (Ref (brk w), w'))"
proof -
  let ?t = "init_socket k DATA_BUFFER_SIZE addr"
  obtain m f o1 o2 b gf l co where calls: "calls = [m, f, o1, o2, b, gf, l, co]"
    using assms(3) by (auto simp: connect_granted_def length_8)
  have c: "script w = [m, f, o1, o2, b, gf, l] @ co # rs" "rv (m Malloc) \<noteq> 0" "rv (f Socket) = k"
    "0 \<le> k" "k \<notin> open_fds w" "k \<notin> epoll_regs w" "init_calls_ok k [o1, o2, b, gf, l]"
    "0 \<le> rv (co (Connect k (sk_address ?t))) \<or> err (co (Connect k (sk_address ?t))) = EINPROGRESS"
    using assms(2,3) by (simp_all add: connect_granted_def calls eval_nat_numeral)
  have create: "socket_create DATA_BUFFER_SIZE (Some addr) w = Inr (Ref (brk w),
    w\<lparr>socks := (socks w)(brk w \<mapsto> ?t), brk := Suc (brk w), script := co # rs,
      open_fds := insert k (open_fds w), sent := (sent w)(k := []),
      trace := init_calls k @ [Socket, Malloc] @ trace w\<rparr>)"
    using socket_create_run [OF c(1,2), of DATA_BUFFER_SIZE addr] c by simp
  show ?thesis
    using assms(1,4) c(8)
    by (cases "rv (co (Connect k (sk_address ?t))) < 0")
      (simp_all add: client_connect_def create socket_connect_def load_socket_def sys_def upd_client_def
        load_client_def global_epoll_fd_def fd_of_def data_connected_def)
qed

lemma client_connect_registered:
  assumes "clients w c = Some s" "script w = calls @ ep # rs"
    and "connect_granted w (sk_address (init_socket k DATA_BUFFER_SIZE addr)) k calls"
    and "goption w = Some g" "opt_epoll_fd g \<noteq> -1" "0 \<le> rv (ep (Epoll_add (opt_epoll_fd g) k))"
  shows "\<exists>w'. client_connect (Ref c) (Some addr) w = Inr (Ref (brk w), w') \<and>
    socks w' = (socks w)(brk w \<mapsto> init_socket k DATA_BUFFER_SIZE addr) \<and>
    clients w' = (clients w)(c \<mapsto> s\<lparr>cl_data_socket := Ref (brk w)\<rparr>) \<and>
    epoll_regs w' = insert k (epoll_regs w) \<and> open_fds w' = insert k (open_fds w) \<and> script w' = rs \<and>
    brk w' = Suc (brk w) \<and> servers w' = servers w \<and> sessions w' = sessions w \<and> links w' = links w \<and>
    goption w' = goption w \<and> blocks w' = blocks w"
proof -
  have "0 \<le> k" "k \<notin> epoll_regs w" using assms(3) by (simp_all add: connect_granted_def)
  then show ?thesis
    using client_connect_start [OF assms(1,2,3,4)] assms(5,6)
    by (simp add: socket_add_to_epoll_def epoll_ctl_add_def sys_def) (simp add: data_connected_def)
qed

subsection \<open>Properties\<close>

text \<open>When the last step of \<open>client_connect\<close>, the registration with epoll, fails, the new socket is
  freed but the client keeps its address: freeing the client afterwards uses freed memory.\<close>

theorem client_connect_leaves_dangling:
  assumes "clients w c = Some s" "script w = calls @ ep # rs"
    and "connect_granted w (sk_address (init_socket k DATA_BUFFER_SIZE addr)) k calls"
    and "goption w = Some g" "opt_epoll_fd g \<noteq> -1" "rv (ep (Epoll_add (opt_epoll_fd g) k)) < 0"
    and "cl_command_socket s = Ref a" "socks w a = Some t" "a < brk w"
  shows "\<exists>w'. client_connect (Ref c) (Some addr) w = Inr (Null, w') \<and>
    clients w' c = Some (s\<lparr>cl_data_socket := Ref (brk w)\<rparr>) \<and> socks w' (brk w) = None \<and>
    client_free (Ref c) w' = Inl (UB Use_after_free)"
proof -
  have "0 \<le> k" using assms(3) by (simp add: connect_granted_def)
  then show ?thesis
    using client_connect_start [OF assms(1,2,3,4)] assms
    by (simp add: socket_add_to_epoll_def epoll_ctl_add_def sys_def socket_free_run client_free_def
        client_drop_command_run client_drop_data_def load_client_def socket_free_dead)
qed

definition one_client :: "(call \<Rightarrow> reply) list \<Rightarrow> world" where
  "one_client rs = (boot rs)\<lparr>socks := [0 \<mapsto> init_socket 4 64 zero_addr],
     clients := [1 \<mapsto> zero_client\<lparr>cl_command_socket := Ref 0\<rparr>], brk := 2, open_fds := {3, 4}, epoll_regs := {4},
     goption := Some \<lparr>opt_server_list = Null, opt_session_list = Null, opt_thread_pool = Null,
       opt_epoll_fd = 3, opt_proxy_socket = Null\<rparr>\<rparr>"

definition granted :: "int \<Rightarrow> (call \<Rightarrow> reply) list" where
  "granted k = [answer 1, answer k, answer 0, answer 0, answer 1, answer 0, answer 0]"

lemma connect_granted_answers:
  "script w = rs \<Longrightarrow> 0 \<le> k \<Longrightarrow> k \<notin> open_fds w \<Longrightarrow> k \<notin> epoll_regs w \<Longrightarrow>
   connect_granted w a k (granted k @ [answer 0])"
  by (simp add: connect_granted_def granted_def answer_def init_calls_ok_def eval_nat_numeral)

theorem client_connect_leaves_dangling_witness:
  "\<exists>w'. client_connect (Ref 1) (Some zero_addr) (one_client ((granted 9 @ [answer 0]) @ [answer (-1)])) = Inr (Null, w')
     \<and> client_free (Ref 1) w' = Inl (UB Use_after_free)"
proof -
  let ?w = "one_client ((granted 9 @ [answer 0]) @ [answer (-1)])"
  let ?s = "zero_client\<lparr>cl_command_socket := Ref 0\<rparr>"
  have cg: "connect_granted ?w a 9 (granted 9 @ [answer 0])" for a
    by (rule connect_granted_answers) (auto simp: one_client_def boot_def)
  have "\<exists>w'. client_connect (Ref 1) (Some zero_addr) ?w = Inr (Null, w') \<and>
    clients w' 1 = Some (?s\<lparr>cl_data_socket := Ref (brk ?w)\<rparr>) \<and> socks w' (brk ?w) = None \<and>
    client_free (Ref 1) w' = Inl (UB Use_after_free)"
    by (rule client_connect_leaves_dangling [where ep = "answer (-1)" and rs = "[]" and a = 0, OF _ _ cg])
      ((simp add: one_client_def boot_def answer_def)+)
  then show ?thesis by blast
qed

end
