(* ===== verification/Server.thy ===== *)
theory Server
  imports Client
begin

section \<open>server.c: the server side of a session\<close>

text \<open>
  \<open>src/server.c\<close>: the list of configured servers, the connection to an FTP server, the
  listening socket for its data connection, and queueing bytes for it, with the rewriting of PORT
  commands. \<open>server_create\<close> does not clear the structure it allocates: its pointers start
  as \<open>Wild\<close>.
\<close>

datatype server_error_type =
    SERVER_SUCCESS | SERVER_INVALID | SERVER_ALLOC_FAILED | SERVER_INCORRECT_CONNECTION_STRING
  | SERVER_SOCKET_CREATE_FAILED | SERVER_NO_SERVERS | SERVER_INVALID_PARAM

subsection \<open>From the server to the client\<close>

definition server_command_received ::
  "ptr \<Rightarrow> char list option \<Rightarrow> int \<Rightarrow> world \<Rightarrow> (server_error_type \<times> world) cres" where
  "server_command_received target_session buf received_bytes w =
     seq (nonnull target_session) (\<lambda>nn.
     if \<not> nn then Inr (SERVER_INVALID, w) else
     if buf = None then Inr (SERVER_INVALID_PARAM, w) else
     seq (load_session target_session w) (\<lambda>s.
     seq (send_packet_to_client (ss_client s) buf received_bytes PORT_TYPE_COMMAND w) (\<lambda>(_, w).
     Inr (SERVER_SUCCESS, w))))"

definition server_data_received ::
  "ptr \<Rightarrow> char list option \<Rightarrow> int \<Rightarrow> world \<Rightarrow> (server_error_type \<times> world) cres" where
  "server_data_received target_session buf received_bytes w =
     seq (nonnull target_session) (\<lambda>nn.
     if \<not> nn then Inr (SERVER_INVALID, w) else
     if buf = None then Inr (SERVER_INVALID_PARAM, w) else
     seq (load_session target_session w) (\<lambda>s.
     seq (send_packet_to_client (ss_client s) buf received_bytes PORT_TYPE_DATA w) (\<lambda>(_, w).
     Inr (SERVER_SUCCESS, w))))"

definition server_data_connection_received ::
  "ptr \<Rightarrow> char list option \<Rightarrow> int \<Rightarrow> world \<Rightarrow> (server_error_type \<times> world) cres" where
  "server_data_connection_received target_session buf received_bytes w =
     seq (nonnull target_session) (\<lambda>nn.
     if \<not> nn then Inr (SERVER_INVALID, w) else
     if buf = None then Inr (SERVER_INVALID_PARAM, w) else
     seq (load_session target_session w) (\<lambda>s.
     seq (send_packet_to_client (ss_client s) buf received_bytes PORT_TYPE_DATA w) (\<lambda>(_, w).
     Inr (SERVER_SUCCESS, w))))"

subsection \<open>Listening for and connecting to the FTP server\<close>

definition server_listen :: "ptr \<Rightarrow> in_addr \<Rightarrow> world \<Rightarrow> (ptr \<times> world) cres" where
  "server_listen target_server net_host w =
     (let bind_address = \<lparr>sin_family = AF_INET, sin_port = htons 0, sin_addr = net_host\<rparr> in
     seq (socket_create DATA_BUFFER_SIZE (Some bind_address) w) (\<lambda>(new_socket, w).
     if new_socket = Null then Inr (Null, w) else
     seq (fd_of new_socket w) (\<lambda>f.
     seq (sys_rc (Setsockopt f) w) (\<lambda>(ret, w).
     if ret < 0 then seq (socket_free new_socket w) (\<lambda>(_, w). Inr (Null, w)) else
     seq (socket_listen new_socket 0 w) (\<lambda>(ret, w).
     if ret \<noteq> SOCKET_SUCCESS
     then seq (socket_free new_socket w) (\<lambda>(_, w). Inr (Null, w)) else
     seq (global_epoll_fd w) (\<lambda>e.
     seq (fd_of new_socket w) (\<lambda>f.
     seq (socket_add_to_epoll e f w) (\<lambda>(ret, w).
     if ret \<noteq> SOCKET_SUCCESS
     then seq (socket_free new_socket w) (\<lambda>(_, w). Inr (Null, w)) else
     seq (upd_server target_server (\<lambda>s. s\<lparr>sv_data_socket := new_socket\<rparr>) w) (\<lambda>w.
     Inr (new_socket, w))))))))))"

definition server_connect :: "ptr \<Rightarrow> world \<Rightarrow> (ptr \<times> world) cres" where
  "server_connect target_server w =
     seq (nonnull target_server) (\<lambda>nn.
     if \<not> nn then Inr (Null, w) else
     seq (load_server target_server w) (\<lambda>s.
     seq (socket_create COMMAND_BUFFER_SIZE (Some (sv_address s)) w) (\<lambda>(new_socket, w).
     if new_socket = Null then Inr (Null, w) else
     seq (socket_connect new_socket w) (\<lambda>(ret, w).
     if ret \<noteq> SOCKET_SUCCESS
     then seq (socket_free new_socket w) (\<lambda>(_, w). Inr (Null, w)) else
     seq (global_epoll_fd w) (\<lambda>e.
     seq (fd_of new_socket w) (\<lambda>f.
     seq (socket_add_to_epoll e f w) (\<lambda>(ret, w).
     if ret \<noteq> SOCKET_SUCCESS
     then seq (socket_free new_socket w) (\<lambda>(_, w). Inr (Null, w)) else
     Inr (new_socket, w))))))))"

text \<open>\<open>server_free\<close> tests and frees the command socket and the listening socket, in this order.\<close>

definition server_drop_command :: "ptr \<Rightarrow> world \<Rightarrow> world cres" where
  "server_drop_command v w =
     seq (load_server v w) (\<lambda>s.
     seq (nonnull (sv_command_socket s)) (\<lambda>nn.
     if \<not> nn then Inr w else
     seq (socket_free (sv_command_socket s) w) (\<lambda>(_, w).
     upd_server v (\<lambda>s. s\<lparr>sv_command_socket := Null\<rparr>) w)))"

definition server_drop_data :: "ptr \<Rightarrow> world \<Rightarrow> world cres" where
  "server_drop_data v w =
     seq (load_server v w) (\<lambda>s.
     seq (nonnull (sv_data_socket s)) (\<lambda>nn.
     if \<not> nn then Inr w else
     seq (socket_free (sv_data_socket s) w) (\<lambda>(_, w).
     upd_server v (\<lambda>s. s\<lparr>sv_data_socket := Null\<rparr>) w)))"

definition server_free :: "ptr \<Rightarrow> world \<Rightarrow> (server_error_type \<times> world) cres" where
  "server_free target_server w =
     seq (nonnull target_server) (\<lambda>nn.
     if \<not> nn then Inr (SERVER_INVALID, w) else
     seq (server_drop_command target_server w) (\<lambda>w.
     seq (server_drop_data target_server w) (\<lambda>w.
     seq (free_server target_server w) (\<lambda>w.
     Inr (SERVER_SUCCESS, w)))))"

text \<open>The structure \<open>malloc\<close> gives: no member has a determinate value.\<close>

definition uninit_server :: server where
  "uninit_server = \<lparr>sv_address = zero_addr, sv_command_socket = Wild, sv_data_socket = Wild,
     sv_connection_socket = Wild\<rparr>"

definition load_saddr :: "ptr \<Rightarrow> world \<Rightarrow> sockaddr cres" where
  "load_saddr p w = (case p of Ref a \<Rightarrow>
       (case saddrs w a of None \<Rightarrow> Inl (UB Out_of_bounds) | Some s \<Rightarrow> Inr s)
     | _ \<Rightarrow> Inl (UB Null_deref))"

definition server_create :: "ptr \<Rightarrow> world \<Rightarrow> (ptr \<times> world) cres" where
  "server_create addr w =
     seq (alloc_server uninit_server w) (\<lambda>(new_server, w).
     if new_server = Null then Inr (Null, w) else
     seq (load_saddr addr w) (\<lambda>a.
     seq (upd_server new_server
           (\<lambda>s. s\<lparr>sv_address := \<lparr>sin_family = AF_INET, sin_port = sin_port a,
                                  sin_addr = sin_addr a\<rparr>\<rparr>) w) (\<lambda>w.
     seq (server_connect new_server w) (\<lambda>(new_command_socket, w).
     if new_command_socket = Null
     then seq (server_free new_server w) (\<lambda>(_, w). Inr (Null, w)) else
     seq (upd_server new_server (\<lambda>s. s\<lparr>sv_command_socket := new_command_socket\<rparr>) w) (\<lambda>w.
     seq (global_epoll_fd w) (\<lambda>e.
     seq (fd_of new_command_socket w) (\<lambda>f.
     seq (socket_add_to_epoll e f w) (\<lambda>(ret, w).
     if ret \<noteq> SOCKET_SUCCESS
     then seq (server_free new_server w) (\<lambda>(_, w). Inr (Null, w)) else
     seq (upd_server new_server
           (\<lambda>s. s\<lparr>sv_data_socket := Null, sv_connection_socket := Null\<rparr>) w) (\<lambda>w.
     Inr (new_server, w))))))))))"

subsection \<open>From the client to the server\<close>

text \<open>The result has the buffer as well: a PORT command in it is replaced.\<close>

definition send_packet_to_server ::
  "ptr \<Rightarrow> char list option \<Rightarrow> int \<Rightarrow> port_type \<Rightarrow> world
     \<Rightarrow> (server_error_type \<times> char list option \<times> world) cres" where
  "send_packet_to_server target_session buf received_bytes port w =
     (let new_buffer_size = received_bytes in
     seq (nonnull target_session) (\<lambda>nn.
     if \<not> nn then Inr (SERVER_INVALID, buf, w) else
     seq (load_session target_session w) (\<lambda>s.
     let target_server = ss_server s in
     seq (nonnull target_server) (\<lambda>nn.
     if \<not> nn then Inr (SERVER_INVALID, buf, w) else
     if buf = None then Inr (SERVER_INVALID_PARAM, buf, w) else
     seq (load_server target_server w) (\<lambda>v.
     let target_socket = (case port of PORT_TYPE_COMMAND \<Rightarrow> sv_command_socket v
                          | PORT_TYPE_DATA \<Rightarrow> sv_data_socket v
                          | PORT_TYPE_DATA_CONNECTION \<Rightarrow> sv_connection_socket v) in
     seq (is_port_command buf received_bytes) (\<lambda>is_port.
     seq (if is_port
          then (case host_address s of None \<Rightarrow> Inl (UB Uninit_read) | Some host \<Rightarrow>
               seq (server_listen target_server (sin_addr host) w) (\<lambda>(data_listen_socket, w).
               if data_listen_socket = Null then Inr (new_buffer_size, buf, w)
               else seq (fd_of data_listen_socket w) (\<lambda>f. generate_port_command f buf w)))
          else Inr (new_buffer_size, buf, w)) (\<lambda>(new_buffer_size, buf, w).
     if new_buffer_size > 0
     then seq (session_buffer_write target_socket buf (nat new_buffer_size) w)
            (\<lambda>(_, w). Inr (SERVER_SUCCESS, buf, w))
     else Inr (SERVER_SUCCESS, buf, w))))))))"

definition server_accept :: "ptr \<Rightarrow> world \<Rightarrow> (ptr \<times> world) cres" where
  "server_accept target_server w =
     seq (nonnull target_server) (\<lambda>nn.
     if \<not> nn then Inr (Null, w) else
     seq (load_server target_server w) (\<lambda>v.
     seq (fd_of (sv_data_socket v) w) (\<lambda>f.
     seq (new_fd (Accept f) w) (\<lambda>(new_socket_fd, r, w).
     if new_socket_fd < 0 \<and> err r \<noteq> EINPROGRESS then Inr (Null, w) else
     seq (socket_create_by_socket new_socket_fd DATA_BUFFER_SIZE w) (\<lambda>(new_socket, w).
     if new_socket = Null then Inr (Null, w) else
     seq (global_epoll_fd w) (\<lambda>e.
     seq (fd_of new_socket w) (\<lambda>f.
     seq (socket_add_to_epoll e f w) (\<lambda>(ret, w).
     if ret \<noteq> SOCKET_SUCCESS then Inr (Null, w) else
     seq (upd_server target_server (\<lambda>s. s\<lparr>sv_connection_socket := new_socket\<rparr>) w) (\<lambda>w.
     Inr (new_socket, w))))))))))"

subsection \<open>The list of servers\<close>

definition server_insert_address ::
  "ptr \<Rightarrow> char list option \<Rightarrow> world \<Rightarrow> (server_error_type \<times> world) cres" where
  "server_insert_address server_list addr w =
     seq (nonnull server_list) (\<lambda>nn.
     case addr of None \<Rightarrow> Inr (SERVER_INVALID_PARAM, w) | Some addr \<Rightarrow>
     if \<not> nn then Inr (SERVER_INVALID_PARAM, w) else
     seq (strchr addr (CHR '':'')) (\<lambda>colon_pos.
     case colon_pos of None \<Rightarrow> Inr (SERVER_INVALID_PARAM, w) | Some k \<Rightarrow>
     if drop (Suc k) addr = [] then Inl (UB Out_of_bounds) else
     if addr ! Suc k = NUL then Inr (SERVER_INVALID_PARAM, w) else
     seq (atoi (drop (Suc k) addr)) (\<lambda>n.
     let port = (word_of_int n :: 16 word) in
     seq (strncpy (replicate 32 NUL) addr k) (\<lambda>host.
     if length host \<le> k then Inl (UB Out_of_bounds) else
     let host = host[k := NUL]; address_net = inet_addr (cstr host) in
     if address_net = INADDR_NONE then Inr (SERVER_INVALID_PARAM, w) else
     seq (alloc_saddr zero_addr w) (\<lambda>(server_address, w).
     if server_address = Null then Inr (SERVER_ALLOC_FAILED, w) else
     seq (addr_of server_address) (\<lambda>a.
     seq (addr_of server_list) (\<lambda>lh.
     let w = w\<lparr>saddrs := (saddrs w)(a \<mapsto> \<lparr>sin_family = AF_INET, sin_port = htons port,
                                            sin_addr = address_net\<rparr>)\<rparr> in
     seq (on_links (LIST_INIT a) w) (\<lambda>w.
     seq (on_links (LIST_ADD lh a) w) (\<lambda>w.
     Inr (SERVER_SUCCESS, w))))))))))"

text \<open>
  The address of the first element's \<open>address\<close> member; the code takes the head's successor for
  an element without asking whether the list is empty.
\<close>

definition server_get_available_address :: "ptr \<Rightarrow> world \<Rightarrow> ptr cres" where
  "server_get_available_address server_list w =
     seq (nonnull server_list) (\<lambda>nn.
     if \<not> nn then Inr Null else
     seq (addr_of server_list) (\<lambda>lh.
     seq (ask_links (\<lambda>h. get_n h lh) w) (\<lambda>x. Inr (Ref (LIST_ELEM x)))))"

subsection \<open>The end of a data connection\<close>

definition server_data_closed :: "ptr \<Rightarrow> world \<Rightarrow> (server_error_type \<times> world) cres" where
  "server_data_closed target_server w =
     seq (nonnull target_server) (\<lambda>nn.
     if \<not> nn then Inr (SERVER_INVALID, w) else
     seq (load_server target_server w) (\<lambda>v.
     seq (nonnull (sv_connection_socket v)) (\<lambda>nn.
     seq (if nn
          then seq (socket_free (sv_connection_socket v) w) (\<lambda>(_, w).
               upd_server target_server (\<lambda>s. s\<lparr>sv_connection_socket := Null\<rparr>) w)
          else Inr w) (\<lambda>w.
     seq (load_server target_server w) (\<lambda>v.
     seq (nonnull (sv_data_socket v)) (\<lambda>nn.
     seq (if nn
          then seq (socket_free (sv_connection_socket v) w) (\<lambda>(_, w).
               upd_server target_server (\<lambda>s. s\<lparr>sv_connection_socket := Null\<rparr>) w)
          else Inr w) (\<lambda>w.
     Inr (SERVER_SUCCESS, w))))))))"

subsection \<open>Connecting\<close>

text \<open>What a connection attempt that returns has done.\<close>

definition connect_post :: "world \<Rightarrow> ptr \<times> world \<Rightarrow> bool" where
  "connect_post w = (\<lambda>(p, w'). other_objects w w' \<and>
     (p \<noteq> Null \<longrightarrow> p = Ref (brk w) \<and> (\<exists>k addr. socks w' = (socks w)(brk w \<mapsto> init_socket k COMMAND_BUFFER_SIZE addr)
        \<and> 0 \<le> k \<and> k \<notin> open_fds w \<and> open_fds w' = insert k (open_fds w) \<and> k \<in> epoll_regs w')))"

lemma connect_post_Null: "other_objects w w' \<Longrightarrow> connect_post w (Null, w')"
  by (simp add: connect_post_def)

lemma quiet_other: "quiet w w' \<Longrightarrow> other_objects w w'"
  by (auto simp: quiet_def other_objects_def)

lemma quiet_fields:
  "quiet w w' \<Longrightarrow> socks w' = socks w \<and> brk w' = brk w \<and> open_fds w' = open_fds w \<and>
     epoll_regs w' = epoll_regs w \<and> sent w' = sent w \<and> goption w' = goption w"
  by (auto simp: quiet_def)

lemma global_epoll_fd_other: "other_objects w w' \<Longrightarrow> global_epoll_fd w' = global_epoll_fd w"
  by (simp add: other_objects_def global_epoll_fd_def)

lemma server_connect_gives:
  assumes v: "servers w v = Some s"
  shows "gives (server_connect (Ref v) w) (connect_post w)"
proof -
  let ?addr = "sv_address s"
  have "gives (if new_socket = Null then Inr (Null, w1) else
     seq (socket_connect new_socket w1) (\<lambda>(ret, w).
     if ret \<noteq> SOCKET_SUCCESS
     then seq (socket_free new_socket w) (\<lambda>(_, w). Inr (Null, w)) else
     seq (global_epoll_fd w) (\<lambda>e.
     seq (fd_of new_socket w) (\<lambda>f.
     seq (socket_add_to_epoll e f w) (\<lambda>(ret, w).
     if ret \<noteq> SOCKET_SUCCESS
     then seq (socket_free new_socket w) (\<lambda>(_, w). Inr (Null, w)) else
     Inr (new_socket, w)))))) (connect_post w)"
    if c: "create_post COMMAND_BUFFER_SIZE ?addr w (new_socket, w1)" for new_socket w1
  proof (cases "new_socket = Null")
    case True
    then show ?thesis using c by (simp add: create_post_def connect_post_Null)
  next
    case False
    let ?a = "brk w"
    obtain k where k: "new_socket = Ref ?a" "socks w1 = (socks w)(?a \<mapsto> init_socket k COMMAND_BUFFER_SIZE ?addr)"
      "0 \<le> k" "k \<notin> open_fds w" "open_fds w1 = insert k (open_fds w)" "other_objects w w1"
      using c False by (auto simp: create_post_def)
    have live: "socks w1 ?a = Some (init_socket k COMMAND_BUFFER_SIZE ?addr)" by (simp add: k)
    have rest: "gives (socket_add_to_epoll e k w2) (\<lambda>x. gives (case x of (ret, w') \<Rightarrow>
        if ret \<noteq> SOCKET_SUCCESS then seq (socket_free (Ref ?a) w') (\<lambda>(_, w). Inr (Null, w))
        else Inr (Ref ?a, w')) (connect_post w))" if q: "quiet w1 w2" for e w2
    proof (rule gives_mono [OF socket_add_to_epoll_gives])
      fix x assume "added_post k w2 x"
      with q k live show "gives (case x of (ret, w') \<Rightarrow>
          if ret \<noteq> SOCKET_SUCCESS then seq (socket_free (Ref ?a) w') (\<lambda>(_, w). Inr (Null, w))
          else Inr (Ref ?a, w')) (connect_post w)"
        using other_objects_trans [OF k(6) other_objects_trans [OF quiet_other [OF q]]]
          quiet_fields [OF q]
        by (cases x) (auto simp: added_post_def connect_post_def socket_free_run
            intro: other_objects_trans [OF _ dropped_other])
    qed
    have "gives (case x of (ret, w) \<Rightarrow> if ret \<noteq> SOCKET_SUCCESS
       then seq (socket_free (Ref ?a) w) (\<lambda>(_, w). Inr (Null, w)) else
       seq (global_epoll_fd w) (\<lambda>e.
       seq (fd_of (Ref ?a) w) (\<lambda>f.
       seq (socket_add_to_epoll e f w) (\<lambda>(ret, w).
       if ret \<noteq> SOCKET_SUCCESS
       then seq (socket_free (Ref ?a) w) (\<lambda>(_, w). Inr (Null, w)) else
       Inr (Ref ?a, w))))) (connect_post w)" if qx: "case x of (e, w') \<Rightarrow> quiet w1 w'" for x
    proof -
      obtain ret w2 where x: "x = (ret, w2)" and q: "quiet w1 w2" using qx by (cases x) auto
      have l: "socks w2 ?a = Some (init_socket k COMMAND_BUFFER_SIZE ?addr)" using live quiet_fields [OF q] by simp
      show ?thesis
      proof (cases "ret = SOCKET_SUCCESS")
        case True
        then show ?thesis
          using rest [OF q] by (cases "goption w2") (simp_all add: x global_epoll_fd_def fd_of_def load_socket_def l)
      next
        case False
        then show ?thesis
          using other_objects_trans [OF k(6) quiet_other [OF q]]
          by (auto simp: x socket_free_run [OF l] intro!: connect_post_Null elim: other_objects_trans)
      qed
    qed
    then show ?thesis
      using socket_connect_gives [OF live] by (auto simp only: k ptr.distinct if_False gives_seq elim!: gives_mono)
  qed
  then show ?thesis
    using v by (auto simp: server_connect_def load_server_def intro!: gives_mono [OF socket_create_gives])
qed

subsection \<open>Freeing a server\<close>

lemma server_free_wild_command:
  assumes "servers w v = Some s" "sv_command_socket s = Wild"
  shows "server_free (Ref v) w = Inl (UB Uninit_read)"
  using assms by (simp add: server_free_def server_drop_command_def load_server_def)

lemma server_drop_command_run:
  assumes "servers w v = Some s" "sv_command_socket s = Ref a" "socks w a = Some t"
  shows "server_drop_command (Ref v) w =
    Inr ((dropped a t w)\<lparr>servers := (servers w)(v \<mapsto> s\<lparr>sv_command_socket := Null\<rparr>)\<rparr>)"
  using assms by (simp add: server_drop_command_def load_server_def upd_server_def socket_free_run)

lemma server_drop_data_run:
  assumes "servers w v = Some s" "sv_data_socket s = Ref a" "socks w a = Some t"
  shows "server_drop_data (Ref v) w =
    Inr ((dropped a t w)\<lparr>servers := (servers w)(v \<mapsto> s\<lparr>sv_data_socket := Null\<rparr>)\<rparr>)"
  using assms by (simp add: server_drop_data_def load_server_def upd_server_def socket_free_run)

lemma server_free_wild_data:
  assumes "servers w v = Some s" "sv_command_socket s = Ref a" "socks w a = Some t" "sv_data_socket s = Wild"
  shows "server_free (Ref v) w = Inl (UB Uninit_read)"
  using assms by (simp add: server_free_def server_drop_command_run server_drop_data_def load_server_def)

subsection \<open>Creating a server\<close>

lemma server_create_gives:
  assumes "strict_epoll w"
  shows "gives (server_create addr w) (\<lambda>(p, w'). p = Null \<and> servers w' = servers w)"
proof -
  have connected: "gives (server_connect (Ref v) w1) (\<lambda>x. gives (case x of (new_command_socket, w) \<Rightarrow>
     if new_command_socket = Null
     then seq (server_free (Ref v) w) (\<lambda>(_, w). Inr (Null, w)) else
     seq (upd_server (Ref v) (\<lambda>s. s\<lparr>sv_command_socket := new_command_socket\<rparr>) w) (\<lambda>w.
     seq (global_epoll_fd w) (\<lambda>e.
     seq (fd_of new_command_socket w) (\<lambda>f.
     seq (socket_add_to_epoll e f w) (\<lambda>(ret, w).
     if ret \<noteq> SOCKET_SUCCESS
     then seq (server_free (Ref v) w) (\<lambda>(_, w). Inr (Null, w)) else
     seq (upd_server (Ref v) (\<lambda>s. s\<lparr>sv_data_socket := Null, sv_connection_socket := Null\<rparr>) w) (\<lambda>w.
     Inr (Ref v, w))))))) Q)"
    if s: "servers w1 v = Some s" "sv_command_socket s = Wild" "sv_data_socket s = Wild" and strict: "strict_epoll w1"
    for v w1 s Q
  proof (rule gives_mono [OF server_connect_gives [OF s(1)]], clarify)
    fix p w2 assume post: "connect_post w1 (p, w2)"
    then have w2: "servers w2 v = Some s" "strict_epoll w2" using s strict
      by (simp_all add: connect_post_def other_objects_def)
    show "gives (if p = Null then seq (server_free (Ref v) w2) (\<lambda>(_, w). Inr (Null, w)) else
     seq (upd_server (Ref v) (\<lambda>s. s\<lparr>sv_command_socket := p\<rparr>) w2) (\<lambda>w.
     seq (global_epoll_fd w) (\<lambda>e.
     seq (fd_of p w) (\<lambda>f.
     seq (socket_add_to_epoll e f w) (\<lambda>(ret, w).
     if ret \<noteq> SOCKET_SUCCESS
     then seq (server_free (Ref v) w) (\<lambda>(_, w). Inr (Null, w)) else
     seq (upd_server (Ref v) (\<lambda>s. s\<lparr>sv_data_socket := Null, sv_connection_socket := Null\<rparr>) w) (\<lambda>w.
     Inr (Ref v, w))))))) Q"
    proof (cases "p = Null")
      case True
      then show ?thesis by (simp add: server_free_wild_command [OF w2(1) s(2)])
    next
      case False
      then obtain k a where p: "p = Ref (brk w1)"
        "socks w2 = (socks w1)(brk w1 \<mapsto> init_socket k COMMAND_BUFFER_SIZE a)" "k \<in> epoll_regs w2"
        using post by (auto simp: connect_post_def)
      let ?w3 = "w2\<lparr>servers := (servers w2)(v \<mapsto> s\<lparr>sv_command_socket := p\<rparr>)\<rparr>"
      have refused: "gives (socket_add_to_epoll e k ?w3) (\<lambda>x. gives (case x of (ret, w) \<Rightarrow>
          if ret \<noteq> SOCKET_SUCCESS then seq (server_free (Ref v) w) (\<lambda>(_, w). Inr (Null, w)) else
          seq (upd_server (Ref v) (\<lambda>s. s\<lparr>sv_data_socket := Null, sv_connection_socket := Null\<rparr>) w) (\<lambda>w.
          Inr (Ref v, w))) Q)" for e
      proof (rule gives_mono [OF socket_add_to_epoll_gives], clarify)
        fix ret w4 assume "added_post k ?w3 (ret, w4)"
        then have "ret \<noteq> SOCKET_SUCCESS" "servers w4 v = Some (s\<lparr>sv_command_socket := p\<rparr>)"
          "socks w4 (brk w1) = Some (init_socket k COMMAND_BUFFER_SIZE a)"
          using w2 p by (auto simp: added_post_def other_objects_def split: if_splits)
        then show "gives (if ret \<noteq> SOCKET_SUCCESS then seq (server_free (Ref v) w4) (\<lambda>(_, w). Inr (Null, w)) else
          seq (upd_server (Ref v) (\<lambda>s. s\<lparr>sv_data_socket := Null, sv_connection_socket := Null\<rparr>) w4) (\<lambda>w.
          Inr (Ref v, w))) Q"
          using server_free_wild_data [of w4 v "s\<lparr>sv_command_socket := p\<rparr>" "brk w1"] p(1) s(3) by simp
      qed
      show ?thesis
        using refused by (cases "goption w2")
          (simp_all add: p upd_server_def load_server_def w2 global_epoll_fd_def fd_of_def load_socket_def)
    qed
  qed
  show ?thesis
    using assms by (auto simp: server_create_def alloc_server_def malloc_def gives_sys gives_if upd_server_def
        load_server_def load_saddr_def uninit_server_def split: ptr.split option.split intro!: connected [unfolded gives_seq])
qed

subsection \<open>Listening for the server\<close>

text \<open>The eleven calls of \<open>server_listen\<close> are granted: memory, a descriptor \<open>k\<close>, its set-up, the
  socket option, \<open>bind\<close>, \<open>listen\<close> and the registration.\<close>

definition listen_address :: "in_addr \<Rightarrow> sockaddr" where
  "listen_address net_host = \<lparr>sin_family = AF_INET, sin_port = htons 0, sin_addr = net_host\<rparr>"

definition listen_granted :: "world \<Rightarrow> in_addr \<Rightarrow> int \<Rightarrow> (call \<Rightarrow> reply) list \<Rightarrow> bool" where
  "listen_granted w net_host k calls =
     (length calls = 11 \<and> rv ((calls ! 0) Malloc) \<noteq> 0 \<and> rv ((calls ! 1) Socket) = k \<and> 0 \<le> k \<and>
      k \<notin> open_fds w \<and> k \<notin> epoll_regs w \<and> init_calls_ok k (take 5 (drop 2 calls)) \<and>
      0 \<le> rv ((calls ! 7) (Setsockopt k)) \<and> 0 \<le> rv ((calls ! 8) (Bind k (listen_address net_host))) \<and>
      0 \<le> rv ((calls ! 9) (Listen k 0)) \<and>
      (case goption w of None \<Rightarrow> False
       | Some g \<Rightarrow> opt_epoll_fd g \<noteq> -1 \<and> 0 \<le> rv ((calls ! 10) (Epoll_add (opt_epoll_fd g) k))))"

lemma length_11:
  "length xs = 11 \<longleftrightarrow> (\<exists>a b c d e f g h i j k. xs = [a, b, c, d, e, f, g, h, i, j, k])"
  by (auto simp: eval_nat_numeral length_Suc_conv)

text \<open>The world after a socket \<open>t\<close> with descriptor \<open>k\<close> was opened and registered.\<close>

definition opened :: "socket \<Rightarrow> call list \<Rightarrow> (call \<Rightarrow> reply) list \<Rightarrow> world \<Rightarrow> world" where
  "opened t tr rs w = w\<lparr>socks := (socks w)(brk w \<mapsto> t), brk := Suc (brk w), script := rs,
     open_fds := insert (sk_fd t) (open_fds w), epoll_regs := insert (sk_fd t) (epoll_regs w),
     sent := (sent w)(sk_fd t := []), trace := tr\<rparr>"

lemma server_listen_run:
  assumes "servers w v = Some s" "script w = calls @ rs" "listen_granted w net_host k calls"
  shows "\<exists>tr. server_listen (Ref v) net_host w =
      Inr (Ref (brk w), (opened (init_socket k DATA_BUFFER_SIZE (listen_address net_host)) tr rs w)
        \<lparr>servers := (servers w)(v \<mapsto> s\<lparr>sv_data_socket := Ref (brk w)\<rparr>)\<rparr>)"
proof -
  let ?t = "init_socket k DATA_BUFFER_SIZE (listen_address net_host)"
  obtain m f o1 o2 b gf l so bi li ep where calls: "calls = [m, f, o1, o2, b, gf, l, so, bi, li, ep]"
    using assms(3) by (auto simp: listen_granted_def length_11)
  obtain g where g: "goption w = Some g" "opt_epoll_fd g \<noteq> -1" "0 \<le> rv (ep (Epoll_add (opt_epoll_fd g) k))"
    using assms(3) by (auto simp: listen_granted_def calls split: option.splits)
  have c: "script w = [m, f, o1, o2, b, gf, l] @ [so, bi, li, ep] @ rs" "rv (m Malloc) \<noteq> 0" "rv (f Socket) = k"
    "0 \<le> k" "k \<notin> open_fds w" "k \<notin> epoll_regs w" "init_calls_ok k [o1, o2, b, gf, l]"
    "0 \<le> rv (so (Setsockopt k))" "0 \<le> rv (bi (Bind k (listen_address net_host)))" "0 \<le> rv (li (Listen k 0))"
    using assms(2,3) by (simp_all add: listen_granted_def calls eval_nat_numeral)
  have a: "sk_address ?t = listen_address net_host" by (simp add: init_socket_def listen_address_def)
  have create: "socket_create DATA_BUFFER_SIZE (Some (listen_address net_host)) w = Inr (Ref (brk w),
    w\<lparr>socks := (socks w)(brk w \<mapsto> ?t), brk := Suc (brk w), script := [so, bi, li, ep] @ rs,
      open_fds := insert k (open_fds w), sent := (sent w)(k := []),
      trace := init_calls k @ [Socket, Malloc] @ trace w\<rparr>)"
    using socket_create_run [OF c(1,2), of DATA_BUFFER_SIZE "listen_address net_host"] c by simp
  show ?thesis
    unfolding opened_def
    using assms(1) g c(4-10)
    by (simp add: server_listen_def listen_address_def [symmetric] create fd_of_def load_socket_def sys_rc_def
        sys_def socket_listen_def a global_epoll_fd_def socket_add_to_epoll_def epoll_ctl_add_def
        upd_server_def load_server_def) (cases w; simp)
qed

lemma opened_simps [simp]:
  "socks (opened t tr rs w) = (socks w)(brk w \<mapsto> t)" "script (opened t tr rs w) = rs"
  "servers (opened t tr rs w) = servers w" "sessions (opened t tr rs w) = sessions w"
  "clients (opened t tr rs w) = clients w" "goption (opened t tr rs w) = goption w"
  "epoll_regs (opened t tr rs w) = insert (sk_fd t) (epoll_regs w)"
  "brk (opened t tr rs w) = Suc (brk w)" "open_fds (opened t tr rs w) = insert (sk_fd t) (open_fds w)"
  by (simp_all add: opened_def)

subsection \<open>Passing packets on\<close>

text \<open>A session whose server has a well-formed command socket.\<close>

definition server_side :: "world \<Rightarrow> nat \<Rightarrow> session \<Rightarrow> nat \<Rightarrow> server \<Rightarrow> nat \<Rightarrow> socket \<Rightarrow> bool" where
  "server_side w t ss v s c cs \<longleftrightarrow> sessions w t = Some ss \<and> ss_server ss = Ref v \<and> servers w v = Some s \<and>
     sv_command_socket s = Ref c \<and> socks w c = Some cs \<and> sock_ok cs \<and> c < brk w"

lemma generate_run:
  assumes "script w = gs # rs" "0 \<le> k" "30 \<le> length dest" "0 \<le> rv (gs (Getsockname k))"
    and "nm = sname (gs (Getsockname k))"
    and "txt = port_command_text (sin_addr nm) (ntohs (sin_port nm))"
  shows "generate_port_command k (Some dest) w = Inr (int (length txt),
    Some (txt @ NUL # drop (Suc (length txt)) dest), w\<lparr>script := rs, trace := Getsockname k # trace w\<rparr>)"
  using assms port_command_text_no_nul
  by (simp add: generate_port_command_def getsockname_def sys_def write_port_command_run strlen_lit)

lemma port_command_text_nonempty: "0 < length (port_command_text a p)"
  by (simp add: port_command_text_def)

lemma send_port_run:
  assumes side: "server_side w t ss v s c cs" and host: "host_address ss = Some h"
    and size: "nat n \<le> length buf" "30 \<le> length buf" and port: "port_command_spec buf (nat n)"
    and sc: "script w = calls @ gs # rs" and lg: "listen_granted w (sin_addr h) k calls"
    and gsn: "0 \<le> rv (gs (Getsockname k))"
    and nm: "nm = sname (gs (Getsockname k))"
    and tx: "txt = port_command_text (sin_addr nm) (ntohs (sin_port nm))"
    and room: "length txt + sk_buffer_used cs \<le> sk_buffer_size cs"
  shows "\<exists>w'. send_packet_to_server (Ref t) (Some buf) n PORT_TYPE_COMMAND w =
      Inr (SERVER_SUCCESS, Some (txt @ NUL # drop (Suc (length txt)) buf), w') \<and>
    socks w' = (socks w)(brk w \<mapsto> init_socket k DATA_BUFFER_SIZE (listen_address (sin_addr h)),
                         c \<mapsto> enqueue txt (length txt) cs) \<and>
    servers w' = (servers w)(v \<mapsto> s\<lparr>sv_data_socket := Ref (brk w)\<rparr>) \<and>
    epoll_regs w' = insert k (epoll_regs w)"
proof -
  let ?t = "init_socket k DATA_BUFFER_SIZE (listen_address (sin_addr h))"
  let ?sv = "(servers w)(v \<mapsto> s\<lparr>sv_data_socket := Ref (brk w)\<rparr>)"
  have s: "sessions w t = Some ss" "ss_server ss = Ref v" "servers w v = Some s"
    "sv_command_socket s = Ref c" "socks w c = Some cs" "sock_ok cs" "c \<noteq> brk w"
    using side by (auto simp: server_side_def)
  obtain tr where l: "server_listen (Ref v) (sin_addr h) w =
      Inr (Ref (brk w), (opened ?t tr (gs # rs) w)\<lparr>servers := ?sv\<rparr>)"
    using server_listen_run [OF s(3) sc lg] by blast
  define w1 where "w1 = (opened ?t tr (gs # rs) w)\<lparr>servers := ?sv\<rparr>"
  define w2 where "w2 = w1\<lparr>script := rs, trace := Getsockname k # trace w1\<rparr>"
  have k: "0 \<le> k" using lg by (simp add: listen_granted_def)
  have gen: "generate_port_command k (Some buf) w1 =
      Inr (int (length txt), Some (txt @ NUL # drop (Suc (length txt)) buf), w2)"
    unfolding w2_def
    by (rule generate_run [where gs = gs and nm = nm]) (use k size(2) gsn nm tx in \<open>simp_all add: w1_def\<close>)
  have fd: "fd_of (Ref (brk w)) w1 = Inr k"
    by (simp add: fd_of_def load_socket_def w1_def)
  have live: "socks w2 c = Some cs" using s by (simp add: w2_def w1_def)
  have take: "enqueue (txt @ NUL # drop (Suc (length txt)) buf) (length txt) cs = enqueue txt (length txt) cs"
    by (simp add: enqueue_def)
  have pos: "0 < length txt" unfolding tx by (rule port_command_text_nonempty)
  have bw: "session_buffer_write (Ref c) (Some (txt @ NUL # drop (Suc (length txt)) buf)) (length txt) w2 =
      Inr (SESSION_SUCCESS, w2\<lparr>socks := (socks w2)(c \<mapsto> enqueue txt (length txt) cs)\<rparr>)"
    using session_buffer_write_run [OF live s(6) pos, of "txt @ NUL # drop (Suc (length txt)) buf"] room
    by (simp add: take)
  show ?thesis
    using s port pos size(1)
    by (simp add: send_packet_to_server_def load_session_def load_server_def is_port_command_run host l
        w1_def [symmetric] fd gen bw) (simp add: w2_def w1_def)
qed

lemma send_plain_run:
  assumes side: "server_side w t ss v s c cs"
    and n: "nat n \<le> length buf" "0 < n" and port: "\<not> port_command_spec buf (nat n)"
    and room: "nat n + sk_buffer_used cs \<le> sk_buffer_size cs"
  shows "send_packet_to_server (Ref t) (Some buf) n PORT_TYPE_COMMAND w =
    Inr (SERVER_SUCCESS, Some buf, w\<lparr>socks := (socks w)(c \<mapsto> enqueue buf (nat n) cs)\<rparr>)"
proof -
  have "session_buffer_write (Ref c) (Some buf) (nat n) w =
      Inr (SESSION_SUCCESS, w\<lparr>socks := (socks w)(c \<mapsto> enqueue buf (nat n) cs)\<rparr>)"
    using side room n by (subst session_buffer_write_run) (auto simp: server_side_def)
  then show ?thesis
    using side n port
    by (simp add: send_packet_to_server_def load_session_def load_server_def server_side_def is_port_command_run)
qed

subsection \<open>The list of servers\<close>

text \<open>A decimal host and port as they stand in the configuration.\<close>

definition server_text :: "in_addr \<Rightarrow> nat \<Rightarrow> string" where
  "server_text a p = inet_ntoa a @ '':'' @ dec p"

text \<open>What may follow the port: the rest of a C string that does not begin with a digit.\<close>

definition ends_number :: "char list \<Rightarrow> bool" where
  "ends_number r \<longleftrightarrow> NUL \<in> set r \<and> \<not> isdigit (hd r)"

lemma ends_number_NUL [simp]: "ends_number (NUL # r)" "ends_number (LF # NUL # r)"
  by (simp_all add: ends_number_def isdigit_def code_def)

lemma atoi_dec:
  assumes "p < 2 ^ 31" "ends_number r"
  shows "atoi (dec p @ r) = Inr (int p)"
proof -
  have c: "cstr (dec p @ r) = dec p @ cstr r"
    using dec_no_special(1) [of p] unfolding cstr_def by (subst takeWhile_append2) auto
  obtain d ds where d: "dec p = d # ds" by (cases "dec p") auto
  then have dig: "isdigit d" using dec_digit [of d p] by simp
  then have "d \<noteq> CHR ''-''" "d \<noteq> CHR ''+''" "\<not> isspace d"
    by (auto simp: isdigit_def isspace_def code_def)
  then have "atoi_str (dec p @ cstr r) = c_int (sat64 (int (digits_val 0 (takeWhile isdigit (dec p @ cstr r)))))"
    by (simp add: atoi_str_def d Let_def)
  also have "takeWhile isdigit (dec p @ cstr r) = dec p"
  proof -
    have "takeWhile isdigit (cstr r) = []"
      using assms(2) by (cases r) (auto simp: ends_number_def cstr_def)
    moreover have "\<And>x. x \<in> set (dec p) \<Longrightarrow> isdigit x" by (rule dec_digit)
    ultimately show ?thesis by (subst takeWhile_append2) auto
  qed
  finally show ?thesis using assms by (simp add: atoi_def c digits_val_dec sat64_def ends_number_def)
qed

lemma server_insert_address_run:
  assumes "p < 2 ^ 31" "a \<noteq> INADDR_NONE" "script w = m # rs" "rv (m Malloc) \<noteq> 0"
    and "ring (links w) lh xs" "\<forall>x \<in> set (lh # xs). x < brk w" "ends_number r"
  shows "\<exists>w'. server_insert_address (Ref lh) (Some (server_text a p @ r)) w = Inr (SERVER_SUCCESS, w') \<and>
    ring (links w') lh (brk w # xs) \<and> script w' = rs \<and> brk w' = Suc (brk w) \<and>
    saddrs w' = (saddrs w)(brk w \<mapsto> \<lparr>sin_family = AF_INET, sin_port = htons (of_nat p), sin_addr = a\<rparr>) \<and>
    (\<forall>x. x \<notin> set (lh # brk w # xs) \<longrightarrow> links w' x = links w x)"
proof -
  define T where "T = server_text a p @ r"
  let ?k = "length (inet_ntoa a)"
  have no: "CHR '':'' \<notin> set (inet_ntoa a)" "NUL \<notin> set (inet_ntoa a)"
    using inet_ntoa_chars [of _ a] isdigit_not_special by (auto simp: isdigit_def code_def dest!: inet_ntoa_chars)
  have colon: "strchr T CHR '':'' = Inr (Some ?k)"
    using strchr_found [OF _ no, of "dec p @ r"] by (simp add: T_def server_text_def)
  have rest: "drop (Suc ?k) T = dec p @ r" by (simp add: T_def server_text_def)
  have long: "\<not> length T \<le> Suc ?k" by (simp add: T_def server_text_def)
  have first: "T ! Suc ?k \<noteq> NUL"
  proof -
    have "T ! Suc ?k = hd (dec p)" by (simp add: T_def server_text_def nth_append hd_conv_nth)
    moreover have "hd (dec p) \<in> set (dec p)" by simp
    ultimately show ?thesis using dec_no_special(1) by metis
  qed
  have len: "?k \<le> 15" by (rule inet_ntoa_length)
  have host: "strncpy (replicate 32 NUL) T ?k = Inr (inet_ntoa a @ replicate (32 - ?k) NUL)"
  proof -
    have "take ?k T = inet_ntoa a" "?k \<le> length T" by (simp_all add: T_def server_text_def)
    then have "strn_read T ?k = Inr (inet_ntoa a)" using strn_read_no_nul [of ?k T] no by simp
    then show ?thesis using len by (simp add: strncpy_def)
  qed
  have cut: "cstr ((inet_ntoa a @ replicate (32 - ?k) NUL)[?k := NUL]) = inet_ntoa a"
  proof -
    obtain r where "replicate (32 - ?k) NUL = NUL # r"
      using len by (cases "32 - ?k") auto
    then show ?thesis using no by (simp add: cstr_lit)
  qed
  let ?w = "w\<lparr>script := rs, trace := Malloc # trace w, saddrs := (saddrs w)(brk w \<mapsto> \<lparr>sin_family = AF_INET,
      sin_port = htons (of_nat p), sin_addr = a\<rparr>),
      links := (links w)(brk w \<mapsto> fresh_node), brk := Suc (brk w)\<rparr>"
  have ri: "ring (links ?w) lh xs" using assms(5,6) by (intro ring_frame [OF assms(5)]) auto
  obtain h1 where h1: "LIST_INIT (brk w) (links ?w) = Inr h1" "dom h1 = dom (links ?w)"
    "\<forall>x. x \<noteq> brk w \<longrightarrow> h1 x = links ?w x"
    using LIST_INIT_ring [of "brk w" "links ?w"] by auto
  have "ring h1 lh xs" using h1(3) assms(6) by (intro ring_frame [OF ri]) auto
  then obtain h2 where h2: "LIST_ADD lh (brk w) h1 = Inr h2" "ring h2 lh (brk w # xs)"
    "\<forall>x. x \<notin> {lh, brk w, hd (xs @ [lh])} \<longrightarrow> h2 x = h1 x"
    using LIST_ADD_ring [of h1 lh xs "brk w"] h1(2) assms(6) by auto
  have "hd (xs @ [lh]) \<in> set (lh # xs)" by (cases xs) auto
  then have "\<forall>x. x \<notin> set (lh # brk w # xs) \<longrightarrow> h2 x = links w x" using h1(3) h2(3) by auto
  then show ?thesis
    unfolding T_def [symmetric] using assms(2-4) atoi_dec [OF assms(1,7)] len h1(1) h2(1,2)
    by (simp add: server_insert_address_def colon rest long first host cut inet_addr_def inet_aton_ntoa
        alloc_saddr_def malloc_def sys_def on_links_def)
qed

lemma server_get_available_address_run:
  "ring (links w) lh xs \<Longrightarrow>
   server_get_available_address (Ref lh) w = Inr (Ref (hd (xs @ [lh])))"
  using ring_first [of "links w" lh xs]
  by (simp add: server_get_available_address_def ask_links_def LIST_ELEM_def)

subsection \<open>Closing a data connection\<close>

lemma server_data_closed_run:
  assumes v: "servers w v = Some s" and x: "sv_connection_socket s = Ref x" "socks w x = Some tx"
    and d: "sv_data_socket s = Ref d"
  shows "server_data_closed (Ref v) w = Inr (SERVER_SUCCESS,
    (dropped x tx w)\<lparr>servers := (servers w)(v \<mapsto> s\<lparr>sv_connection_socket := Null\<rparr>)\<rparr>)"
proof -
  have null: "socket_free Null w' = Inr (SOCKET_INVALID, w')" for w'
    by (simp add: socket_free_def)
  show ?thesis
    using assms by (simp add: server_data_closed_def load_server_def upd_server_def socket_free_run null)
qed

subsection \<open>A small proxy for the witnesses\<close>

text \<open>
  One session (at 4) of a client (at 2, command descriptor 4) with a server (at 3, command
  descriptor 5); the server list (head 5) holds one address (at 8), the session list (head 6)
  the session. Buffers hold 64 bytes.
\<close>

definition demo_addr :: "8 word \<Rightarrow> sockaddr" where
  "demo_addr x = \<lparr>sin_family = AF_INET, sin_port = htons 21, sin_addr = (10, 0, 0, x)\<rparr>"

definition demo_server :: server where
  "demo_server = \<lparr>sv_address = demo_addr 2, sv_command_socket = Ref 1, sv_data_socket = Null,
     sv_connection_socket = Null\<rparr>"

definition demo_session :: session where
  "demo_session = \<lparr>ss_client = Ref 2, ss_server = Ref 3, host_address = Some (demo_addr 1)\<rparr>"

definition demo :: "(call \<Rightarrow> reply) list \<Rightarrow> world" where
  "demo rs = (boot rs)\<lparr>
     socks := [0 \<mapsto> init_socket 4 64 zero_addr, 1 \<mapsto> init_socket 5 64 zero_addr],
     clients := [2 \<mapsto> \<lparr>cl_address = zero_addr, cl_command_socket = Ref 0, cl_data_socket = Null\<rparr>],
     servers := [3 \<mapsto> demo_server], sessions := [4 \<mapsto> demo_session], saddrs := [8 \<mapsto> demo_addr 2],
     links := [5 \<mapsto> \<lparr>nxt = 8, prv = 8\<rparr>, 8 \<mapsto> \<lparr>nxt = 5, prv = 5\<rparr>,
               6 \<mapsto> \<lparr>nxt = 4, prv = 4\<rparr>, 4 \<mapsto> \<lparr>nxt = 6, prv = 6\<rparr>],
     goption := Some \<lparr>opt_server_list = Ref 5, opt_session_list = Ref 6, opt_thread_pool = Null,
       opt_epoll_fd = 3, opt_proxy_socket = Null\<rparr>,
     brk := 10, open_fds := {3, 4, 5}, epoll_regs := {4, 5}\<rparr>"

lemma demo_server_side: "server_side (demo rs) 4 demo_session 3 demo_server 1 (init_socket 5 64 zero_addr)"
  by (simp add: server_side_def demo_def boot_def demo_session_def demo_server_def)

lemma demo_fields [simp]:
  "script (demo rs) = rs" "brk (demo rs) = 10" "strict_epoll (demo rs)"
  by (simp_all add: demo_def boot_def)

lemma demo_rings: "ring (links (demo rs)) 5 [8]" "ring (links (demo rs)) 6 [4]"
  by (simp_all add: demo_def boot_def ring_def nx_def pv_def)

subsection \<open>Properties\<close>

text \<open>C22: On a system whose epoll refuses a descriptor that is registered already, as Linux does,
  \<open>server_create\<close> never returns a server: \<open>server_connect\<close> registers the command socket,
  \<open>server_create\<close> registers it again and takes the refusal for a failure. If it returns at all,
  the first allocation had failed and no server was made.\<close>

theorem server_create_never_succeeds:
  assumes "strict_epoll w"
  shows "gives (server_create addr w) (\<lambda>(p, w'). p = Null \<and> servers w' = servers w)"
  by (rule server_create_gives [OF assms])

theorem server_create_never_succeeds_witness:
  "gives (server_create (Ref 8) (demo ([answer 1] @ granted 9 @ [answer 0, answer 0, answer 0])))
     (\<lambda>(p, w'). p = Null \<and> servers w' = servers (demo ([answer 1] @ granted 9 @ [answer 0, answer 0, answer 0])))
   \<and> stopped (server_create (Ref 8) (demo ([answer 1] @ granted 9 @ [answer 0, answer 0, answer 0]))) = Some (UB Uninit_read)"
proof
  let ?rs = "[answer 0, answer 0, answer 0]"
  have "socket_create COMMAND_BUFFER_SIZE (Some a) w = Inr (Ref (brk w),
    w\<lparr>socks := (socks w)(brk w \<mapsto> init_socket 9 COMMAND_BUFFER_SIZE a), brk := Suc (brk w), script := ?rs,
      open_fds := insert 9 (open_fds w), sent := (sent w)(9 := []),
      trace := init_calls 9 @ [Socket, Malloc] @ trace w\<rparr>)"
    if "script w = granted 9 @ ?rs" "9 \<notin> open_fds w" for a w
    using socket_create_run [of w "answer 1" "answer 9" "answer 0" "answer 0" "answer 1" "answer 0" "answer 0" ?rs
        COMMAND_BUFFER_SIZE a] that
    by (simp add: granted_def answer_def init_calls_ok_def)
  then show "stopped (server_create (Ref 8) (demo ([answer 1] @ granted 9 @ ?rs))) = Some (UB Uninit_read)"
    by (simp add: stopped_eq server_create_def alloc_server_def load_saddr_def upd_server_def
        load_server_def server_connect_def socket_connect_def load_socket_def fd_of_def sys_rc_def sys_def malloc_def
        global_epoll_fd_def socket_add_to_epoll_def epoll_ctl_add_def demo_def boot_def uninit_server_def answer_def
        server_free_def server_drop_command_def server_drop_data_def socket_free_run)
qed (rule server_create_never_succeeds, simp)

text \<open>C10: A PORT command from the client: when the listening socket is granted and the command fits, the
  proxy replaces the text by a PORT command for the address its listening socket is bound to, queues
  that for the server behind what is waiting, and keeps the listening socket, registered with
  epoll, as the session's data socket. The client's own text never reaches the server.\<close>

theorem send_packet_to_server_rewrites_port:
  assumes "server_side w t ss v s c cs" "host_address ss = Some h"
    and "nat n \<le> length buf" "30 \<le> length buf" "port_command_spec buf (nat n)"
    and "script w = calls @ gs # rs" "listen_granted w (sin_addr h) k calls"
    and "0 \<le> rv (gs (Getsockname k))" "nm = sname (gs (Getsockname k))"
    and "txt = port_command_text (sin_addr nm) (ntohs (sin_port nm))"
    and "length txt + sk_buffer_used cs \<le> sk_buffer_size cs"
  shows "\<exists>w'. send_packet_to_server (Ref t) (Some buf) n PORT_TYPE_COMMAND w =
      Inr (SERVER_SUCCESS, Some (txt @ NUL # drop (Suc (length txt)) buf), w') \<and>
    socks w' = (socks w)(brk w \<mapsto> init_socket k DATA_BUFFER_SIZE (listen_address (sin_addr h)),
                         c \<mapsto> enqueue txt (length txt) cs) \<and>
    servers w' = (servers w)(v \<mapsto> s\<lparr>sv_data_socket := Ref (brk w)\<rparr>) \<and>
    epoll_regs w' = insert k (epoll_regs w)"
  by (rule send_port_run [OF assms])

theorem send_packet_to_server_rewrites_port_witness:
  "\<exists>w'. send_packet_to_server (Ref 4) (Some (''PORT 192,168,0,7,4,2'' @ CR # LF # replicate 20 NUL)) 22
        PORT_TYPE_COMMAND (demo (granted 9 @ [answer 0, answer 0, answer 0, answer 0, own_address])) =
      Inr (SERVER_SUCCESS, Some (''PORT 10,0,0,1,4,2'' @ LF # NUL # CHR ''2'' # CR # LF # replicate 20 NUL), w')
    \<and> map_option queued (socks w' 1) = Some (''PORT 10,0,0,1,4,2'' @ [LF])"
proof -
  let ?buf = "''PORT 192,168,0,7,4,2'' @ CR # LF # replicate 20 NUL"
  let ?calls = "granted 9 @ [answer 0, answer 0, answer 0, answer 0]"
  let ?w = "demo (?calls @ [own_address])"
  have p: "port_command_spec ?buf (nat 22)" by code_simp
  have tx: "port_command_text (10, 0, 0, 1) 1026 = ''PORT 10,0,0,1,4,2'' @ [LF]" by code_simp
  have lg: "listen_granted ?w (sin_addr (demo_addr 1)) 9 ?calls"
    by (simp add: listen_granted_def granted_def answer_def demo_def boot_def init_calls_ok_def eval_nat_numeral)
  have nm: "ntohs (sin_port (sname (own_address (Getsockname 9)))) = 1026"
    "sin_addr (sname (own_address (Getsockname 9))) = (10, 0, 0, 1)" "0 \<le> rv (own_address (Getsockname 9))"
    by (simp_all add: own_address_def answer_def)
  have "queued (enqueue (''PORT 10,0,0,1,4,2'' @ [LF]) 18 (init_socket 5 64 zero_addr)) = ''PORT 10,0,0,1,4,2'' @ [LF]"
    by code_simp
  then show ?thesis
    using send_packet_to_server_rewrites_port [where w = ?w and buf = ?buf and n = 22 and calls = ?calls and gs = own_address
        and rs = "[]" and k = 9 and h = "demo_addr 1", OF demo_server_side _ _ _ p _ lg nm(3) refl refl]
    by (simp add: nm tx demo_session_def eval_nat_numeral) auto
qed

text \<open>Anything that is not a PORT command and fits is queued for the server unchanged, behind the
  bytes that are waiting, and nothing else changes.\<close>

theorem send_packet_to_server_plain:
  assumes "server_side w t ss v s c cs" "nat n \<le> length buf" "0 < n"
    and "\<not> port_command_spec buf (nat n)" "nat n + sk_buffer_used cs \<le> sk_buffer_size cs"
  shows "send_packet_to_server (Ref t) (Some buf) n PORT_TYPE_COMMAND w =
      Inr (SERVER_SUCCESS, Some buf, w\<lparr>socks := (socks w)(c \<mapsto> enqueue buf (nat n) cs)\<rparr>) \<and>
    queued (enqueue buf (nat n) cs) = queued cs @ take (nat n) buf"
proof
  have "sock_ok cs" using assms(1) by (simp add: server_side_def)
  then show "queued (enqueue buf (nat n) cs) = queued cs @ take (nat n) buf"
    using assms(2,5) by (simp add: enqueue_queued)
qed (rule send_plain_run [OF assms])

theorem send_packet_to_server_plain_witness:
  "\<exists>w'. send_packet_to_server (Ref 4) (Some ''USER anonymous'') 14 PORT_TYPE_COMMAND (demo []) =
     Inr (SERVER_SUCCESS, Some ''USER anonymous'', w') \<and> map_option queued (socks w' 1) = Some ''USER anonymous''"
proof -
  have "\<not> port_command_spec ''USER anonymous'' (nat 14)" by code_simp
  then show ?thesis
    using send_packet_to_server_plain [OF demo_server_side, of 14 "''USER anonymous''" "[]"]
    by (auto simp: demo_def)
qed

text \<open>The end of a data connection closes the accepted connection and nothing else: the block that is
  to close the listening socket frees the connection socket's field once more. The listening
  socket stays open, registered and in the session's server.\<close>

theorem server_data_closed_keeps_listening:
  assumes "servers w v = Some s" "sv_connection_socket s = Ref x" "socks w x = Some tx"
    and "sv_data_socket s = Ref d" "socks w d = Some td" "x \<noteq> d" "0 \<le> sk_fd tx" "sk_fd tx \<noteq> sk_fd td"
    and "sk_fd td \<in> open_fds w" "sk_fd td \<in> epoll_regs w"
  shows "\<exists>w'. server_data_closed (Ref v) w = Inr (SERVER_SUCCESS, w') \<and>
    socks w' = (socks w)(x := None) \<and> open_fds w' = open_fds w - {sk_fd tx} \<and>
    servers w' = (servers w)(v \<mapsto> s\<lparr>sv_connection_socket := Null\<rparr>) \<and>
    socks w' d = Some td \<and> sk_fd td \<in> open_fds w' \<and> sk_fd td \<in> epoll_regs w'"
  using assms by (simp add: server_data_closed_run dropped_fds)

definition transfer_demo :: "(call \<Rightarrow> reply) list \<Rightarrow> world" where
  "transfer_demo rs = (demo rs)\<lparr>
     socks := (socks (demo rs))(9 \<mapsto> init_socket 6 64 zero_addr, 10 \<mapsto> init_socket 7 64 zero_addr),
     servers := [3 \<mapsto> demo_server\<lparr>sv_data_socket := Ref 9, sv_connection_socket := Ref 10\<rparr>],
     brk := 11, open_fds := {3, 4, 5, 6, 7}, epoll_regs := {4, 5, 6, 7}\<rparr>"

theorem server_data_closed_keeps_listening_witness:
  "\<exists>w'. server_data_closed (Ref 3) (transfer_demo []) = Inr (SERVER_SUCCESS, w') \<and>
     open_fds w' = {3, 4, 5, 6} \<and> 6 \<in> epoll_regs w'"
  using server_data_closed_keeps_listening [of "transfer_demo []" 3
      "demo_server\<lparr>sv_data_socket := Ref 9, sv_connection_socket := Ref 10\<rparr>" 10 "init_socket 7 64 zero_addr"
      9 "init_socket 6 64 zero_addr"]
  by (auto simp: transfer_demo_def)

text \<open>A server given as a dotted address and a decimal port, with whatever follows the number, is put at the front of the list, its port
  cut to 16 bits, and from then on it is the address \<open>server_get_available_address\<close> chooses: the
  last server configured, whatever the others are.\<close>

theorem server_insert_address_chosen:
  assumes "p < 2 ^ 31" "a \<noteq> INADDR_NONE" "script w = m # rs" "rv (m Malloc) \<noteq> 0"
    and "ring (links w) lh xs" "\<forall>x \<in> set (lh # xs). x < brk w" "ends_number r"
  shows "\<exists>w'. server_insert_address (Ref lh) (Some (server_text a p @ r)) w = Inr (SERVER_SUCCESS, w') \<and>
    ring (links w') lh (brk w # xs) \<and>
    server_get_available_address (Ref lh) w' = Inr (Ref (brk w)) \<and>
    load_saddr (Ref (brk w)) w' =
      Inr \<lparr>sin_family = AF_INET, sin_port = htons (of_nat p), sin_addr = a\<rparr>"
proof -
  obtain w' where "server_insert_address (Ref lh) (Some (server_text a p @ r)) w = Inr (SERVER_SUCCESS, w')"
    "ring (links w') lh (brk w # xs)"
    "saddrs w' = (saddrs w)(brk w \<mapsto> \<lparr>sin_family = AF_INET, sin_port = htons (of_nat p), sin_addr = a\<rparr>)"
    using server_insert_address_run [OF assms] by blast
  moreover from this(2) have "server_get_available_address (Ref lh) w' = Inr (Ref (brk w))"
    by (simp add: server_get_available_address_run)
  ultimately show ?thesis by (auto simp: load_saddr_def)
qed

theorem server_insert_address_chosen_witness:
  "\<exists>w'. server_insert_address (Ref 5) (Some (''10.0.0.3:2121'' @ [LF, NUL])) (demo [answer 1]) = Inr (SERVER_SUCCESS, w') \<and>
     server_get_available_address (Ref 5) w' = Inr (Ref 10)"
proof -
  have "server_text (10, 0, 0, 3) 2121 = ''10.0.0.3:2121''"
    by (simp add: server_text_def dec.simps digit_chars)
  then show ?thesis
    using server_insert_address_chosen [of 2121 "(10, 0, 0, 3)" "demo [answer 1]" "answer 1" "[]" 5 "[8]" "[LF, NUL]"]
    by (auto simp: demo_rings INADDR_NONE_def answer_def)
qed

end
