(* ===== verification/Session.thy ===== *)
theory Session
  imports Server
begin

section \<open>session.c: sessions and the event loop\<close>

text \<open>
  \<open>src/session.c\<close>, with the two handlers of \<open>src/client.c\<close> that act on a whole session. A session
  pairs a client with a server; the event loop takes a batch of epoll events, accepts new
  clients, reads what a ready socket has and queues it for the other side, and writes queued
  bytes to sockets that can take them. A port type is \<open>None\<close> where the code returns \<open>-1\<close>.
\<close>

subsection \<open>Which socket of a session is it?\<close>

definition socket_has_fd :: "ptr \<Rightarrow> int \<Rightarrow> world \<Rightarrow> bool cres" where
  "socket_has_fd p socket_fd w =
     seq (nonnull p) (\<lambda>nn. if \<not> nn then Inr False else
     seq (fd_of p w) (\<lambda>f. Inr (f = socket_fd)))"

definition session_get_client_socket_type :: "int \<Rightarrow> ptr \<Rightarrow> world \<Rightarrow> port_type option cres" where
  "session_get_client_socket_type socket_fd source_client w =
     seq (nonnull source_client) (\<lambda>nn.
     if \<not> nn \<or> socket_fd = -1 then Inr None else
     seq (load_client source_client w) (\<lambda>c.
     seq (socket_has_fd (cl_command_socket c) socket_fd w) (\<lambda>b.
     if b then Inr (Some PORT_TYPE_COMMAND) else
     seq (socket_has_fd (cl_data_socket c) socket_fd w) (\<lambda>b.
     if b then Inr (Some PORT_TYPE_DATA) else Inr None))))"

definition session_get_server_socket_type :: "int \<Rightarrow> ptr \<Rightarrow> world \<Rightarrow> port_type option cres" where
  "session_get_server_socket_type socket_fd source_server w =
     seq (nonnull source_server) (\<lambda>nn.
     if \<not> nn \<or> socket_fd = -1 then Inr None else
     seq (load_server source_server w) (\<lambda>v.
     seq (socket_has_fd (sv_command_socket v) socket_fd w) (\<lambda>b.
     if b then Inr (Some PORT_TYPE_COMMAND) else
     seq (socket_has_fd (sv_data_socket v) socket_fd w) (\<lambda>b.
     if b then Inr (Some PORT_TYPE_DATA) else
     seq (socket_has_fd (sv_connection_socket v) socket_fd w) (\<lambda>b.
     if b then Inr (Some PORT_TYPE_DATA_CONNECTION) else Inr None)))))"

definition is_socket_in_session :: "ptr \<Rightarrow> int \<Rightarrow> world \<Rightarrow> bool cres" where
  "is_socket_in_session source_session socket_fd w =
     seq (nonnull source_session) (\<lambda>nn.
     if \<not> nn then Inr False else
     if socket_fd < 0 then Inr False else
     seq (load_session source_session w) (\<lambda>s.
     seq (session_get_client_socket_type socket_fd (ss_client s) w) (\<lambda>ret.
     if ret \<noteq> None then Inr True else
     seq (session_get_server_socket_type socket_fd (ss_server s) w) (\<lambda>ret.
     if ret \<noteq> None then Inr True else Inr False))))"

subsection \<open>Writing queued bytes\<close>

text \<open>\<open>memset(buffer, 0, n)\<close>.\<close>

definition memset_zero :: "char list option \<Rightarrow> nat \<Rightarrow> char list cres" where
  "memset_zero dest n =
     (case dest of None \<Rightarrow> Inl (UB Null_deref)
      | Some d \<Rightarrow> if length d < n then Inl (UB Out_of_bounds) else Inr (replicate n NUL @ drop n d))"

text \<open>The end of \<open>session_write_packet\<close>: write what is in the buffer, then mark it empty.\<close>

definition flush_socket :: "ptr \<Rightarrow> int \<Rightarrow> world \<Rightarrow> world cres" where
  "flush_socket target_socket event_socket w =
     seq (load_socket target_socket w) (\<lambda>s.
     if sk_buffer_used s > 0
     then (let used = (if sk_buffer_used s > sk_buffer_size s then sk_buffer_size s
                       else sk_buffer_used s) in
       (case sk_buffer s of None \<Rightarrow> Inl (UB Null_deref) | Some b \<Rightarrow>
       seq (packet_full_write event_socket b used w) (\<lambda>(_, w).
       seq (memset_zero (Some b) (sk_buffer_size s)) (\<lambda>b.
       upd_socket target_socket (\<lambda>s. s\<lparr>sk_buffer_used := 0, sk_buffer := Some b\<rparr>) w))))
     else Inr w)"

definition session_write_packet :: "ptr \<Rightarrow> int \<Rightarrow> world \<Rightarrow> (session_error_type \<times> world) cres" where
  "session_write_packet target_session event_socket w =
     seq (load_session target_session w) (\<lambda>ss.
     seq (nonnull (ss_client ss)) (\<lambda>has_client.
     seq (if \<not> has_client then Inr (Some PORT_TYPE_COMMAND, Null)
          else seq (session_get_client_socket_type event_socket (ss_client ss) w) (\<lambda>port.
               seq (load_client (ss_client ss) w) (\<lambda>c.
               Inr (port, case port of Some PORT_TYPE_COMMAND \<Rightarrow> cl_command_socket c
                          | Some PORT_TYPE_DATA \<Rightarrow> cl_data_socket c
                          | _ \<Rightarrow> Null)))) (\<lambda>(port, target_socket).
     seq (nonnull (ss_server ss)) (\<lambda>has_server.
     if target_socket = Null \<and> port = None \<and> has_server
     then seq (session_get_server_socket_type event_socket (ss_server ss) w) (\<lambda>port.
          case port of None \<Rightarrow> Inr (SESSION_INVALID_SOCKET, w) | Some t \<Rightarrow>
          seq (load_server (ss_server ss) w) (\<lambda>v.
          seq (flush_socket (case t of PORT_TYPE_COMMAND \<Rightarrow> sv_command_socket v
                             | PORT_TYPE_DATA \<Rightarrow> sv_data_socket v
                             | PORT_TYPE_DATA_CONNECTION \<Rightarrow> sv_connection_socket v)
                 event_socket w) (\<lambda>w.
          Inr (SESSION_SUCCESS, w))))
     else if target_socket \<noteq> Null
     then seq (flush_socket target_socket event_socket w) (\<lambda>w. Inr (SESSION_SUCCESS, w))
     else Inr (SESSION_SUCCESS, w)))))"

subsection \<open>Creating, finding and removing sessions\<close>

definition socket_del_from_epoll :: "int \<Rightarrow> int \<Rightarrow> world \<Rightarrow> (session_error_type \<times> world) cres" where
  "socket_del_from_epoll epfd socket_fd w =
     (if epfd = -1 \<or> socket_fd = -1 then Inr (SESSION_INVALID_SOCKET, w) else
     seq (epoll_ctl_del epfd socket_fd w) (\<lambda>(ret, w).
     if ret < 0 then Inr (SESSION_EPOLL_CTL_FAILED, w) else Inr (SESSION_SUCCESS, w)))"

text \<open>The session structure itself is never freed. The result is the same on every path.\<close>

definition session_remove_from_list :: "ptr \<Rightarrow> world \<Rightarrow> (session_error_type \<times> world) cres" where
  "session_remove_from_list target_session w =
     seq (nonnull target_session) (\<lambda>nn.
     if \<not> nn then Inr (SESSION_INVALID_SESSION, w) else
     seq (load_session target_session w) (\<lambda>s.
     seq (nonnull (ss_client s)) (\<lambda>has_client.
     seq (if has_client
          then seq (client_free (ss_client s) w) (\<lambda>(_, w).
               upd_session target_session (\<lambda>s. s\<lparr>ss_client := Null\<rparr>) w)
          else Inr w) (\<lambda>w.
     seq (load_session target_session w) (\<lambda>s.
     seq (nonnull (ss_server s)) (\<lambda>has_server.
     seq (if has_server
          then seq (server_free (ss_server s) w) (\<lambda>(_, w).
               upd_session target_session (\<lambda>s. s\<lparr>ss_server := Null\<rparr>) w)
          else Inr w) (\<lambda>w.
     seq (addr_of target_session) (\<lambda>a.
     seq (ask_links (LIST_ISEMPTY a) w) (\<lambda>empty.
     seq (if \<not> empty then on_links (LIST_DEL a) w else Inr w) (\<lambda>w.
     Inr (SESSION_INVALID_SESSION, w)))))))))))"

text \<open>
  Adding a session: \<open>add_session_to_list\<close> makes the structure and initialises its list node; the rest,
  from \<open>accept\<close> on, is \<open>open_session\<close>, with \<open>a\<close> the address of the node.
\<close>

definition open_session :: "ptr \<Rightarrow> ptr \<Rightarrow> nat \<Rightarrow> int \<Rightarrow> world \<Rightarrow> (ptr \<times> world) cres" where
  "open_session session_list new_session a event_socket w =
     seq (new_fd (Accept event_socket) w) (\<lambda>(connected_socket, r, w).
     if connected_socket < 0 \<and> err r \<noteq> EINPROGRESS
     then seq (session_remove_from_list new_session w) (\<lambda>(_, w). Inr (Null, w)) else
     seq (getsockname connected_socket w) (\<lambda>(ret, host, w).
     seq (if ret < 0 then Inr w
          else upd_session new_session (\<lambda>s. s\<lparr>host_address := Some host\<rparr>) w) (\<lambda>w.
     seq (case goption w of None \<Rightarrow> Inl (UB Null_deref)
          | Some g \<Rightarrow> server_get_available_address (opt_server_list g) w) (\<lambda>server_address.
     if server_address = Null
     then seq (session_remove_from_list new_session w) (\<lambda>(_, w). Inr (Null, w)) else
     seq (client_create connected_socket w) (\<lambda>(new_client, w).
     if new_client = Null
     then seq (session_remove_from_list new_session w) (\<lambda>(_, w). Inr (Null, w)) else
     seq (server_create server_address w) (\<lambda>(new_server, w).
     if new_server = Null
     then seq (client_free new_client w) (\<lambda>(_, w).
          seq (session_remove_from_list new_session w) (\<lambda>(_, w). Inr (Null, w))) else
     seq (upd_session new_session (\<lambda>s. s\<lparr>ss_client := new_client, ss_server := new_server\<rparr>) w) (\<lambda>w.
     seq (addr_of session_list) (\<lambda>lh.
     seq (on_links (LIST_ADD lh a) w) (\<lambda>w.
     Inr (new_session, w))))))))))"

definition add_session_to_list :: "ptr \<Rightarrow> int \<Rightarrow> world \<Rightarrow> (ptr \<times> world) cres" where
  "add_session_to_list session_list event_socket w =
     seq (nonnull session_list) (\<lambda>nn.
     if \<not> nn then Inr (Null, w) else
     seq (alloc_session \<lparr>ss_client = Null, ss_server = Null, host_address = None\<rparr> w) (\<lambda>(new_session, w).
     if new_session = Null then Inr (Null, w) else
     seq (addr_of new_session) (\<lambda>a.
     seq (on_links (LIST_INIT a) w) (\<lambda>w.
     open_session session_list new_session a event_socket w))))"

text \<open>
  The loop of \<open>get_session_from_list\<close> returns at the first session that has the socket. The number
  of addresses ever given out bounds the rounds.
\<close>

fun find_session :: "nat \<Rightarrow> nat \<Rightarrow> int \<Rightarrow> nat \<Rightarrow> world \<Rightarrow> ptr cres" where
  "find_session 0 head socket_fd item w = Inl Out_of_fuel"
| "find_session (Suc fuel) head socket_fd item w =
     (if item = head then Inr Null
      else seq (is_socket_in_session (Ref item) socket_fd w) (\<lambda>b.
           if b then Inr (Ref item)
           else seq (ask_links (\<lambda>h. get_n h item) w) (\<lambda>x.
                find_session fuel head socket_fd (LIST_ELEM x) w)))"

definition get_session_from_list :: "ptr \<Rightarrow> int \<Rightarrow> world \<Rightarrow> (ptr \<times> session_error_type option) cres" where
  "get_session_from_list session_list socket_fd w =
     seq (nonnull session_list) (\<lambda>nn.
     if \<not> nn then Inr (Null, Some SESSION_INVALID_LIST) else
     if socket_fd < 0 then Inr (Null, Some SESSION_INVALID_PARAMS) else
     seq (addr_of session_list) (\<lambda>lh.
     seq (ask_links (\<lambda>h. get_n h lh) w) (\<lambda>x.
     seq (find_session (Suc (brk w)) lh socket_fd (LIST_ELEM x) w) (\<lambda>p.
     Inr (p, if p = Null then Some SESSION_INVALID_SOCKET else None)))))"

subsection \<open>Reading\<close>

definition client_data_received ::
  "ptr \<Rightarrow> char list option \<Rightarrow> int \<Rightarrow> world \<Rightarrow> (client_error_type \<times> world) cres" where
  "client_data_received target_session buf received_bytes w =
     seq (nonnull target_session) (\<lambda>nn.
     if \<not> nn then Inr (CLIENT_INVALID, w) else
     if buf = None then Inr (CLIENT_INVALID_PARAM, w) else
     seq (send_packet_to_server target_session buf received_bytes PORT_TYPE_DATA w) (\<lambda>(_, _, w).
     Inr (CLIENT_SUCCESS, w)))"

definition client_command_received ::
  "ptr \<Rightarrow> char list option \<Rightarrow> int \<Rightarrow> world \<Rightarrow> (client_error_type \<times> world) cres" where
  "client_command_received target_session buf received_bytes w =
     seq (nonnull target_session) (\<lambda>nn.
     if \<not> nn then Inr (CLIENT_INVALID, w) else
     case buf of None \<Rightarrow> Inr (CLIENT_INVALID_PARAM, w) | Some b \<Rightarrow>
     seq (is_port_command buf received_bytes) (\<lambda>is_port.
     seq (if \<not> is_port then Inr (True, w) else
          seq (get_address_from_port_command (drop 5 b) received_bytes w) (\<lambda>(client_data_address, w).
          case client_data_address of None \<Rightarrow> Inr (True, w) | Some addr \<Rightarrow>
          seq (load_session target_session w) (\<lambda>s.
          seq (client_connect (ss_client s) (Some addr) w) (\<lambda>(new_data_socket, w).
          let w = free_block w in
          if new_data_socket = Null
          then seq (session_remove_from_list target_session w) (\<lambda>(_, w). Inr (False, w))
          else Inr (True, w))))) (\<lambda>(go_on, w).
     if \<not> go_on then Inr (CLIENT_PORT_PARSE_FAILED, w) else
     seq (send_packet_to_server target_session buf received_bytes PORT_TYPE_COMMAND w) (\<lambda>(_, _, w).
     Inr (CLIENT_SUCCESS, w)))))"

text \<open>
  \<open>session_read_packet\<close> returns enumerators of two types as an \<open>int\<close>: the values of both.
\<close>

definition session_rc :: "session_error_type \<Rightarrow> int" where
  "session_rc e = (case e of SESSION_SUCCESS \<Rightarrow> 0 | SESSION_INVALID_LIST \<Rightarrow> 1
     | SESSION_ALLOC_FAILED \<Rightarrow> 2 | SESSION_INVALID_SOCKET \<Rightarrow> 3 | SESSION_INVALID_PARAMS \<Rightarrow> 4
     | SESSION_INVALID_SESSION \<Rightarrow> 5 | SESSION_EPOLL_CTL_FAILED \<Rightarrow> 6 | SESSION_ADD_FAILED \<Rightarrow> 7
     | SESSION_POLLING_WAIT_ERROR \<Rightarrow> 8 | SESSION_CONNECTION_CLOSED \<Rightarrow> 9
     | SESSION_CONNECTION_ERROR \<Rightarrow> 10)"

definition server_rc :: "server_error_type \<Rightarrow> int" where
  "server_rc e = (case e of SERVER_SUCCESS \<Rightarrow> 0 | SERVER_INVALID \<Rightarrow> 1 | SERVER_ALLOC_FAILED \<Rightarrow> 2
     | SERVER_INCORRECT_CONNECTION_STRING \<Rightarrow> 3 | SERVER_SOCKET_CREATE_FAILED \<Rightarrow> 4
     | SERVER_NO_SERVERS \<Rightarrow> 5 | SERVER_INVALID_PARAM \<Rightarrow> 6)"

text \<open>What a socket that has nothing more to read, or fails, does to its session.\<close>

definition read_failed :: "ptr \<Rightarrow> int \<Rightarrow> int \<Rightarrow> port_type option \<Rightarrow> world \<Rightarrow> (int \<times> world) cres" where
  "read_failed target_session event_socket received_bytes port w =
     seq (global_epoll_fd w) (\<lambda>e.
     seq (socket_del_from_epoll e event_socket w) (\<lambda>(_, w).
     seq (if received_bytes = 0 \<and> (port = Some PORT_TYPE_DATA \<or> port = Some PORT_TYPE_DATA_CONNECTION)
          then seq (load_session target_session w) (\<lambda>s.
               seq (server_data_closed (ss_server s) w) (\<lambda>(_, w). Inr w))
          else seq (session_remove_from_list target_session w) (\<lambda>(_, w). Inr w)) (\<lambda>w.
     if received_bytes = 0 then Inr (session_rc SESSION_CONNECTION_CLOSED, w)
     else Inr (session_rc SESSION_CONNECTION_ERROR, w))))"

text \<open>The dispatch on the kind of socket the bytes came from.\<close>

definition dispatch_packet ::
  "ptr \<Rightarrow> int \<Rightarrow> char list \<Rightarrow> int \<Rightarrow> port_type option \<Rightarrow> world \<Rightarrow> (int \<times> world) cres" where
  "dispatch_packet target_session event_socket buf received_bytes port w =
     (case port of
        Some PORT_TYPE_COMMAND \<Rightarrow>
          seq (server_command_received target_session (Some buf) received_bytes w)
            (\<lambda>(_, w). Inr (session_rc SESSION_SUCCESS, w))
      | Some PORT_TYPE_DATA \<Rightarrow>
          seq (server_data_received target_session (Some buf) received_bytes w)
            (\<lambda>(_, w). Inr (session_rc SESSION_SUCCESS, w))
      | Some PORT_TYPE_DATA_CONNECTION \<Rightarrow>
          seq (server_data_connection_received target_session (Some buf) received_bytes w)
            (\<lambda>(_, w). Inr (session_rc SESSION_SUCCESS, w))
      | None \<Rightarrow>
          seq (load_session target_session w) (\<lambda>s.
          seq (session_get_client_socket_type event_socket (ss_client s) w) (\<lambda>port.
          case port of
            Some PORT_TYPE_COMMAND \<Rightarrow>
              seq (client_command_received target_session (Some buf) received_bytes w)
                (\<lambda>(_, w). Inr (session_rc SESSION_SUCCESS, w))
          | Some PORT_TYPE_DATA \<Rightarrow>
              seq (client_data_received target_session (Some buf) received_bytes w)
                (\<lambda>(_, w). Inr (session_rc SESSION_SUCCESS, w))
          | _ \<Rightarrow> Inr (session_rc SESSION_INVALID_SOCKET, w))))"

definition session_read_packet :: "ptr \<Rightarrow> int \<Rightarrow> world \<Rightarrow> (int \<times> world) cres" where
  "session_read_packet target_session event_socket w =
     seq (nonnull target_session) (\<lambda>nn.
     if \<not> nn \<or> event_socket < 0 then Inr (server_rc SERVER_INVALID_PARAM, w) else
     seq (packet_read event_socket COMMAND_BUFFER_SIZE w) (\<lambda>(received_bytes, bs, w).
     let buf = bs @ replicate (COMMAND_BUFFER_SIZE - length bs) NUL in
     seq (load_session target_session w) (\<lambda>s.
     seq (session_get_server_socket_type event_socket (ss_server s) w) (\<lambda>port.
     if received_bytes \<le> 0 then read_failed target_session event_socket received_bytes port w
     else dispatch_packet target_session event_socket buf received_bytes port w))))"

subsection \<open>The event loop\<close>

definition MAX_EVENTS :: nat where "MAX_EVENTS = 256"

text \<open>One round of the loop over the events; the result says whether the loop goes on.\<close>

definition handle_event :: "ptr \<Rightarrow> int \<Rightarrow> epoll_event \<Rightarrow> world \<Rightarrow> (bool \<times> world) cres" where
  "handle_event session_list proxy_connect_socket event w =
     (let event_socket = ev_fd event in
     if event_socket = proxy_connect_socket
     then seq (add_session_to_list session_list event_socket w) (\<lambda>(_, w). Inr (True, w))
     else
     seq (get_session_from_list session_list event_socket w) (\<lambda>(target_session, _).
     if target_session = Null then Inr (True, w) else
     let write_part = (\<lambda>w. if ev_out event
           then seq (session_write_packet target_session event_socket w) (\<lambda>(_, w). Inr (True, w))
           else Inr (True, w)) in
     if ev_in event
     then seq (load_session target_session w) (\<lambda>s.
          seq (load_server (ss_server s) w) (\<lambda>v.
          seq (socket_has_fd (sv_data_socket v) event_socket w) (\<lambda>is_listen.
          if is_listen
          then seq (server_accept (ss_server s) w) (\<lambda>(_, w). Inr (True, w))
          else seq (session_read_packet target_session event_socket w) (\<lambda>(ret, w).
               if ret \<noteq> session_rc SESSION_SUCCESS \<and> ret \<noteq> session_rc SESSION_CONNECTION_CLOSED
               then Inr (False, w)
               else write_part w))))
     else write_part w))"

fun handle_events :: "ptr \<Rightarrow> int \<Rightarrow> epoll_event list \<Rightarrow> world \<Rightarrow> world cres" where
  "handle_events session_list proxy_connect_socket [] w = Inr w"
| "handle_events session_list proxy_connect_socket (e # es) w =
     seq (handle_event session_list proxy_connect_socket e w) (\<lambda>(go_on, w).
     if go_on then handle_events session_list proxy_connect_socket es w else Inr w)"

definition session_polling :: "int \<Rightarrow> ptr \<Rightarrow> int \<Rightarrow> world \<Rightarrow> (session_error_type \<times> world) cres" where
  "session_polling epfd session_list proxy_connect_socket w =
     seq (sys (Epoll_wait epfd) w) (\<lambda>(r, w).
     if rv r = -1
     then (if err r = EINTR then Inr (SESSION_SUCCESS, w)
           else Inr (SESSION_POLLING_WAIT_ERROR, w))
     else seq (handle_events session_list proxy_connect_socket
                 (take (min MAX_EVENTS (nat (rv r))) (evs r)) w) (\<lambda>w.
          Inr (SESSION_SUCCESS, w)))"

subsection \<open>Well-formed sessions\<close>

text \<open>A socket field that is NULL or points to a socket, and the descriptors behind it.\<close>

definition sock_ptr_ok :: "world \<Rightarrow> ptr \<Rightarrow> bool" where
  "sock_ptr_ok w p = (case p of Null \<Rightarrow> True | Ref a \<Rightarrow> socks w a \<noteq> None | Wild \<Rightarrow> False)"

definition ptr_fds :: "world \<Rightarrow> ptr \<Rightarrow> int list" where
  "ptr_fds w p = (case p of Ref a \<Rightarrow> (case socks w a of Some s \<Rightarrow> [sk_fd s] | None \<Rightarrow> []) | _ \<Rightarrow> [])"

definition client_ptr_ok :: "world \<Rightarrow> ptr \<Rightarrow> bool" where
  "client_ptr_ok w p = (case p of Null \<Rightarrow> True | Wild \<Rightarrow> False | Ref a \<Rightarrow>
     (case clients w a of None \<Rightarrow> False
      | Some c \<Rightarrow> sock_ptr_ok w (cl_command_socket c) \<and> sock_ptr_ok w (cl_data_socket c)))"

definition client_fds :: "world \<Rightarrow> ptr \<Rightarrow> int list" where
  "client_fds w p = (case p of Ref a \<Rightarrow> (case clients w a of None \<Rightarrow> []
      | Some c \<Rightarrow> ptr_fds w (cl_command_socket c) @ ptr_fds w (cl_data_socket c)) | _ \<Rightarrow> [])"

definition server_ptr_ok :: "world \<Rightarrow> ptr \<Rightarrow> bool" where
  "server_ptr_ok w p = (case p of Null \<Rightarrow> True | Wild \<Rightarrow> False | Ref a \<Rightarrow>
     (case servers w a of None \<Rightarrow> False
      | Some v \<Rightarrow> sock_ptr_ok w (sv_command_socket v) \<and> sock_ptr_ok w (sv_data_socket v)
          \<and> sock_ptr_ok w (sv_connection_socket v)))"

definition server_fds :: "world \<Rightarrow> ptr \<Rightarrow> int list" where
  "server_fds w p = (case p of Ref a \<Rightarrow> (case servers w a of None \<Rightarrow> []
      | Some v \<Rightarrow> ptr_fds w (sv_command_socket v) @ ptr_fds w (sv_data_socket v)
          @ ptr_fds w (sv_connection_socket v)) | _ \<Rightarrow> [])"

definition session_ok :: "world \<Rightarrow> nat \<Rightarrow> bool" where
  "session_ok w t = (case sessions w t of None \<Rightarrow> False
     | Some s \<Rightarrow> client_ptr_ok w (ss_client s) \<and> server_ptr_ok w (ss_server s))"

definition session_fds :: "world \<Rightarrow> nat \<Rightarrow> int list" where
  "session_fds w t = (case sessions w t of None \<Rightarrow> []
     | Some s \<Rightarrow> client_fds w (ss_client s) @ server_fds w (ss_server s))"

lemma socket_has_fd_run:
  "sock_ptr_ok w p \<Longrightarrow> socket_has_fd p f w = Inr (f \<in> set (ptr_fds w p))"
  by (auto simp: socket_has_fd_def sock_ptr_ok_def ptr_fds_def fd_of_def load_socket_def split: ptr.splits)

lemma client_type_run:
  assumes "client_ptr_ok w p" "f \<noteq> -1"
  shows "\<exists>r. session_get_client_socket_type f p w = Inr r \<and> (r \<noteq> None) = (f \<in> set (client_fds w p))"
proof (cases p)
  case (Ref a)
  with assms obtain c where "clients w a = Some c" "sock_ptr_ok w (cl_command_socket c)" "sock_ptr_ok w (cl_data_socket c)"
    by (auto simp: client_ptr_ok_def split: option.splits)
  with Ref assms(2) show ?thesis
    by (simp add: session_get_client_socket_type_def load_client_def client_fds_def socket_has_fd_run)
qed (use assms in \<open>simp_all add: session_get_client_socket_type_def client_fds_def client_ptr_ok_def\<close>)

lemma server_type_run:
  assumes "server_ptr_ok w p" "f \<noteq> -1"
  shows "\<exists>r. session_get_server_socket_type f p w = Inr r \<and> (r \<noteq> None) = (f \<in> set (server_fds w p))"
proof (cases p)
  case (Ref a)
  with assms obtain v where "servers w a = Some v" "sock_ptr_ok w (sv_command_socket v)"
    "sock_ptr_ok w (sv_data_socket v)" "sock_ptr_ok w (sv_connection_socket v)"
    by (auto simp: server_ptr_ok_def split: option.splits)
  with Ref assms(2) show ?thesis
    by (simp add: session_get_server_socket_type_def load_server_def server_fds_def socket_has_fd_run)
qed (use assms in \<open>simp_all add: session_get_server_socket_type_def server_fds_def server_ptr_ok_def\<close>)

lemma is_socket_in_session_run:
  assumes "session_ok w t" "0 \<le> f"
  shows "is_socket_in_session (Ref t) f w = Inr (f \<in> set (session_fds w t))"
proof -
  obtain s where s: "sessions w t = Some s" "client_ptr_ok w (ss_client s)" "server_ptr_ok w (ss_server s)"
    using assms(1) by (auto simp: session_ok_def split: option.splits)
  have f: "f \<noteq> -1" using assms(2) by simp
  obtain r q where "session_get_client_socket_type f (ss_client s) w = Inr r" "(r \<noteq> None) = (f \<in> set (client_fds w (ss_client s)))"
    "session_get_server_socket_type f (ss_server s) w = Inr q" "(q \<noteq> None) = (f \<in> set (server_fds w (ss_server s)))"
    using client_type_run [OF s(2) f] server_type_run [OF s(3) f] by blast
  with s(1) assms(2) show ?thesis
    by (auto simp: is_socket_in_session_def load_session_def session_fds_def)
qed

lemma find_session_linked:
  "linked (links w) (xs @ [lh]) \<Longrightarrow> lh \<notin> set xs \<Longrightarrow> length xs < fuel \<Longrightarrow> \<forall>x \<in> set xs. session_ok w x \<Longrightarrow> 0 \<le> f \<Longrightarrow>
   find_session fuel lh f (hd (xs @ [lh])) w =
     Inr (case find (\<lambda>x. f \<in> set (session_fds w x)) xs of None \<Rightarrow> Null | Some x \<Rightarrow> Ref x)"
proof (induction xs arbitrary: fuel)
  case Nil
  then show ?case by (cases fuel) auto
next
  case (Cons x xs)
  then obtain n where n: "fuel = Suc n" "length xs < n" by (cases fuel) auto
  have "nx (links w) x = Some (hd (xs @ [lh]))" "linked (links w) (xs @ [lh])"
    using Cons.prems(1) by (cases xs; simp)+
  with Cons n show ?case
    by (simp add: is_socket_in_session_run ask_links_def LIST_ELEM_def)
qed

lemma distinct_bounded_length:
  "distinct xs \<Longrightarrow> \<forall>x \<in> set xs. x < n \<Longrightarrow> length xs \<le> n"
proof -
  assume "distinct xs" "\<forall>x \<in> set xs. x < n"
  then have "length xs = card (set xs)" "set xs \<subseteq> {..<n}" by (auto simp: distinct_card)
  then show ?thesis using card_mono [of "{..<n}" "set xs"] by simp
qed

lemma get_session_run:
  assumes "ring (links w) lh xs" "\<forall>x \<in> set xs. session_ok w x \<and> x < brk w" "0 \<le> f"
  shows "get_session_from_list (Ref lh) f w =
    Inr (case find (\<lambda>x. f \<in> set (session_fds w x)) xs of
           None \<Rightarrow> (Null, Some SESSION_INVALID_SOCKET) | Some x \<Rightarrow> (Ref x, None))"
proof -
  have "linked (links w) (xs @ [lh])" "lh \<notin> set xs" "distinct xs"
    using ring_segments(2) [OF assms(1)] ring_distinct [OF assms(1)] by auto
  then have "find_session (Suc (brk w)) lh f (hd (xs @ [lh])) w =
      Inr (case find (\<lambda>x. f \<in> set (session_fds w x)) xs of None \<Rightarrow> Null | Some x \<Rightarrow> Ref x)"
    using assms distinct_bounded_length [of xs "brk w"] by (intro find_session_linked) auto
  then show ?thesis
    using assms(3) ring_first [OF assms(1)]
    by (simp add: get_session_from_list_def ask_links_def LIST_ELEM_def split: option.split)
qed

subsection \<open>Taking a session down\<close>

definition drop_ptr :: "ptr \<Rightarrow> world \<Rightarrow> world" where
  "drop_ptr p w = (case p of Ref a \<Rightarrow> (case socks w a of Some s \<Rightarrow> dropped a s w | None \<Rightarrow> w) | _ \<Rightarrow> w)"

definition drops :: "ptr list \<Rightarrow> world \<Rightarrow> world" where
  "drops ps w = fold drop_ptr ps w"

lemma drop_ptr_simps [simp]:
  "clients (drop_ptr p w) = clients w" "servers (drop_ptr p w) = servers w"
  "sessions (drop_ptr p w) = sessions w" "links (drop_ptr p w) = links w"
  "goption (drop_ptr p w) = goption w" "brk (drop_ptr p w) = brk w" "sent (drop_ptr p w) = sent w"
  "strict_epoll (drop_ptr p w) = strict_epoll w" "saddrs (drop_ptr p w) = saddrs w"
  by (simp_all add: drop_ptr_def split: ptr.split option.split)

lemma drops_simps [simp]:
  "clients (drops ps w) = clients w" "servers (drops ps w) = servers w"
  "sessions (drops ps w) = sessions w" "links (drops ps w) = links w"
  "goption (drops ps w) = goption w" "brk (drops ps w) = brk w" "sent (drops ps w) = sent w"
  "strict_epoll (drops ps w) = strict_epoll w" "saddrs (drops ps w) = saddrs w"
  by (induction ps arbitrary: w) (simp_all add: drops_def)

lemma drop_ptr_socks: "socks (drop_ptr p w) = (\<lambda>x. if p = Ref x then None else socks w x)"
  by (auto simp: drop_ptr_def split: ptr.split option.split)

lemma drops_socks: "socks (drops ps w) = (\<lambda>x. if Ref x \<in> set ps then None else socks w x)"
  by (induction ps arbitrary: w) (auto simp: drops_def drop_ptr_socks)

definition live_fds :: "world \<Rightarrow> ptr list \<Rightarrow> int set" where
  "live_fds w ps = {f. 0 \<le> f \<and> (\<exists>p \<in> set ps. f \<in> set (ptr_fds w p))}"

lemma drops_open_fds: "distinct (filter (\<lambda>p. p \<noteq> Null) ps) \<Longrightarrow> open_fds (drops ps w) = open_fds w - live_fds w ps"
proof (induction ps arbitrary: w)
  case Nil
  then show ?case by (simp add: drops_def live_fds_def)
next
  case (Cons p ps)
  have step: "open_fds (drop_ptr p w) = open_fds w - live_fds w [p]"
    by (auto simp: drop_ptr_def live_fds_def ptr_fds_def dropped_def close_fd_def shutdown_fd_def
        split: ptr.splits option.splits)
  have "ptr_fds (drop_ptr p w) q = ptr_fds w q" if "q \<in> set ps" for q
    using Cons.prems that by (auto simp: ptr_fds_def drop_ptr_socks split: ptr.splits if_splits)
  then have "live_fds (drop_ptr p w) ps = live_fds w ps" by (simp add: live_fds_def)
  moreover have "distinct (filter (\<lambda>p. p \<noteq> Null) ps)" using Cons.prems by (auto split: if_splits)
  moreover have "live_fds w (p # ps) = live_fds w [p] \<union> live_fds w ps" by (auto simp: live_fds_def)
  ultimately show ?case
    using Cons.IH [of "drop_ptr p w"] step by (auto simp: drops_def)
qed

lemma drop_ptr_with [simp]:
  "drop_ptr p (w\<lparr>clients := m\<rparr>) = (drop_ptr p w)\<lparr>clients := m\<rparr>"
  "drop_ptr p (w\<lparr>servers := n\<rparr>) = (drop_ptr p w)\<lparr>servers := n\<rparr>"
  by (auto simp: drop_ptr_def dropped_def close_fd_def shutdown_fd_def split: ptr.split option.split)

lemma sock_ptr_ok_drop:
  "sock_ptr_ok w q \<Longrightarrow> q = Null \<or> q \<noteq> p \<Longrightarrow> sock_ptr_ok (drop_ptr p w) q"
  by (auto simp: sock_ptr_ok_def drop_ptr_socks split: ptr.splits)

lemma client_drop_command_ok:
  assumes "clients w c = Some s" "sock_ptr_ok w (cl_command_socket s)"
  shows "client_drop_command (Ref c) w =
    Inr ((drop_ptr (cl_command_socket s) w)\<lparr>clients := (clients w)(c \<mapsto> s\<lparr>cl_command_socket := Null\<rparr>)\<rparr>)"
proof (cases "cl_command_socket s")
  case Null
  then have "s\<lparr>cl_command_socket := Null\<rparr> = s" by (cases s) simp
  then show ?thesis using Null assms by (simp add: client_drop_command_def load_client_def drop_ptr_def fun_upd_idem)
next
  case (Ref a)
  then show ?thesis using assms by (auto simp: client_drop_command_run sock_ptr_ok_def drop_ptr_def)
qed (use assms in \<open>simp add: sock_ptr_ok_def\<close>)

lemma client_drop_data_ok:
  assumes "clients w c = Some s" "sock_ptr_ok w (cl_data_socket s)"
  shows "client_drop_data (Ref c) w =
    Inr ((drop_ptr (cl_data_socket s) w)\<lparr>clients := (clients w)(c \<mapsto> s\<lparr>cl_data_socket := Null\<rparr>)\<rparr>)"
proof (cases "cl_data_socket s")
  case Null
  then have "s\<lparr>cl_data_socket := Null\<rparr> = s" by (cases s) simp
  then show ?thesis using Null assms by (simp add: client_drop_data_def load_client_def drop_ptr_def fun_upd_idem)
next
  case (Ref a)
  then show ?thesis using assms by (auto simp: client_drop_data_run sock_ptr_ok_def drop_ptr_def)
qed (use assms in \<open>simp add: sock_ptr_ok_def\<close>)

lemma server_drop_command_ok:
  assumes "servers w c = Some s" "sock_ptr_ok w (sv_command_socket s)"
  shows "server_drop_command (Ref c) w =
    Inr ((drop_ptr (sv_command_socket s) w)\<lparr>servers := (servers w)(c \<mapsto> s\<lparr>sv_command_socket := Null\<rparr>)\<rparr>)"
proof (cases "sv_command_socket s")
  case Null
  then have "s\<lparr>sv_command_socket := Null\<rparr> = s" by (cases s) simp
  then show ?thesis using Null assms by (simp add: server_drop_command_def load_server_def drop_ptr_def fun_upd_idem)
next
  case (Ref a)
  then show ?thesis using assms by (auto simp: server_drop_command_run sock_ptr_ok_def drop_ptr_def)
qed (use assms in \<open>simp add: sock_ptr_ok_def\<close>)

lemma server_drop_data_ok:
  assumes "servers w c = Some s" "sock_ptr_ok w (sv_data_socket s)"
  shows "server_drop_data (Ref c) w =
    Inr ((drop_ptr (sv_data_socket s) w)\<lparr>servers := (servers w)(c \<mapsto> s\<lparr>sv_data_socket := Null\<rparr>)\<rparr>)"
proof (cases "sv_data_socket s")
  case Null
  then have "s\<lparr>sv_data_socket := Null\<rparr> = s" by (cases s) simp
  then show ?thesis using Null assms by (simp add: server_drop_data_def load_server_def drop_ptr_def fun_upd_idem)
next
  case (Ref a)
  then show ?thesis using assms by (auto simp: server_drop_data_run sock_ptr_ok_def drop_ptr_def)
qed (use assms in \<open>simp add: sock_ptr_ok_def\<close>)

definition apart :: "ptr list \<Rightarrow> bool" where
  "apart ps = distinct (filter (\<lambda>p. p \<noteq> Null) ps)"

lemma client_free_ok:
  assumes "clients w c = Some s" "sock_ptr_ok w (cl_command_socket s)" "sock_ptr_ok w (cl_data_socket s)"
    and "apart [cl_command_socket s, cl_data_socket s]"
  shows "client_free (Ref c) w = Inr (CLIENT_SUCCESS,
    (drops [cl_command_socket s, cl_data_socket s] w)\<lparr>clients := (clients w)(c := None)\<rparr>)"
proof -
  let ?s = "s\<lparr>cl_command_socket := Null\<rparr>"
  let ?w = "(drop_ptr (cl_command_socket s) w)\<lparr>clients := (clients w)(c \<mapsto> ?s)\<rparr>"
  have "sock_ptr_ok ?w (cl_data_socket ?s)"
    using sock_ptr_ok_drop [OF assms(3), of "cl_command_socket s"] assms(4)
    by (auto simp: sock_ptr_ok_def apart_def split: if_splits ptr.splits)
  then have "client_drop_data (Ref c) ?w = Inr ((drop_ptr (cl_data_socket ?s) ?w)\<lparr>clients :=
      (clients ?w)(c \<mapsto> ?s\<lparr>cl_data_socket := Null\<rparr>)\<rparr>)"
    by (intro client_drop_data_ok) simp
  then show ?thesis
    by (simp add: client_free_def client_drop_command_ok [OF assms(1,2)] free_client_def freed_def drops_def)
qed

lemma server_free_ok:
  assumes "servers w c = Some s" "sock_ptr_ok w (sv_command_socket s)" "sock_ptr_ok w (sv_data_socket s)"
    and "apart [sv_command_socket s, sv_data_socket s]"
  shows "server_free (Ref c) w = Inr (SERVER_SUCCESS,
    (drops [sv_command_socket s, sv_data_socket s] w)\<lparr>servers := (servers w)(c := None)\<rparr>)"
proof -
  let ?s = "s\<lparr>sv_command_socket := Null\<rparr>"
  let ?w = "(drop_ptr (sv_command_socket s) w)\<lparr>servers := (servers w)(c \<mapsto> ?s)\<rparr>"
  have "sock_ptr_ok ?w (sv_data_socket ?s)"
    using sock_ptr_ok_drop [OF assms(3), of "sv_command_socket s"] assms(4)
    by (auto simp: sock_ptr_ok_def apart_def split: if_splits ptr.splits)
  then have "server_drop_data (Ref c) ?w = Inr ((drop_ptr (sv_data_socket ?s) ?w)\<lparr>servers :=
      (servers ?w)(c \<mapsto> ?s\<lparr>sv_data_socket := Null\<rparr>)\<rparr>)"
    by (intro server_drop_data_ok) simp
  then show ?thesis
    by (simp add: server_free_def server_drop_command_ok [OF assms(1,2)] free_server_def freed_def drops_def)
qed

text \<open>A session that is complete: a client and a server, with sockets that are live and all different.\<close>

definition complete_session :: "world \<Rightarrow> nat \<Rightarrow> session \<Rightarrow> nat \<Rightarrow> client \<Rightarrow> nat \<Rightarrow> server \<Rightarrow> bool" where
  "complete_session w t ss c cc v sv \<longleftrightarrow> sessions w t = Some ss \<and> ss_client ss = Ref c \<and> ss_server ss = Ref v \<and>
     clients w c = Some cc \<and> servers w v = Some sv \<and>
     sock_ptr_ok w (cl_command_socket cc) \<and> sock_ptr_ok w (cl_data_socket cc) \<and>
     sock_ptr_ok w (sv_command_socket sv) \<and> sock_ptr_ok w (sv_data_socket sv) \<and>
     apart [cl_command_socket cc, cl_data_socket cc, sv_command_socket sv, sv_data_socket sv]"

definition session_sockets :: "client \<Rightarrow> server \<Rightarrow> ptr list" where
  "session_sockets cc sv = [cl_command_socket cc, cl_data_socket cc, sv_command_socket sv, sv_data_socket sv]"

lemma session_remove_run:
  assumes k: "complete_session w t ss c cc v sv" and r: "ring (links w) lh (as @ t # bs)"
  shows "\<exists>w'. session_remove_from_list (Ref t) w = Inr (SESSION_INVALID_SESSION, w') \<and>
    ring (links w') lh (as @ bs) \<and>
    socks w' = (\<lambda>x. if Ref x \<in> set (session_sockets cc sv) then None else socks w x) \<and>
    open_fds w' = open_fds w - live_fds w (session_sockets cc sv) \<and>
    clients w' = (clients w)(c := None) \<and> servers w' = (servers w)(v := None) \<and>
    sessions w' = (sessions w)(t \<mapsto> ss\<lparr>ss_client := Null, ss_server := Null\<rparr>)"
proof -
  have s: "sessions w t = Some ss" "ss_client ss = Ref c" "ss_server ss = Ref v" "clients w c = Some cc"
    "servers w v = Some sv" and ok: "sock_ptr_ok w (cl_command_socket cc)" "sock_ptr_ok w (cl_data_socket cc)"
    "sock_ptr_ok w (sv_command_socket sv)" "sock_ptr_ok w (sv_data_socket sv)"
    and ap: "apart (session_sockets cc sv)"
    using k by (simp_all add: complete_session_def session_sockets_def)
  let ?cs = "[cl_command_socket cc, cl_data_socket cc]" and ?vs = "[sv_command_socket sv, sv_data_socket sv]"
  have ap2: "apart ?cs" "apart ?vs" using ap by (auto simp: apart_def session_sockets_def split: if_splits)
  define w1 where "w1 = (drops ?cs w)\<lparr>clients := (clients w)(c := None)\<rparr>"
  define w2 where "w2 = w1\<lparr>sessions := (sessions w)(t \<mapsto> ss\<lparr>ss_client := Null\<rparr>)\<rparr>"
  have w2: "servers w2 v = Some sv" "sessions w2 t = Some (ss\<lparr>ss_client := Null\<rparr>)" "links w2 = links w"
    "socks w2 = socks (drops ?cs w)" "open_fds w2 = open_fds (drops ?cs w)"
    using s by (simp_all add: w2_def w1_def)
  have keep: "sock_ptr_ok w2 q" "ptr_fds w2 q = ptr_fds w q" if "q \<in> set ?vs" "sock_ptr_ok w q" for q
    using that ap by (auto simp: sock_ptr_ok_def ptr_fds_def w2(4) drops_socks apart_def session_sockets_def
        split: ptr.splits if_splits)
  have cfree: "client_free (Ref c) w = Inr (CLIENT_SUCCESS, w1)"
    unfolding w1_def by (rule client_free_ok [OF s(4) ok(1,2) ap2(1)])
  define w3 where "w3 = (drops ?vs w2)\<lparr>servers := (servers w2)(v := None)\<rparr>"
  have vfree: "server_free (Ref v) w2 = Inr (SERVER_SUCCESS, w3)"
    unfolding w3_def using keep(1) ok by (intro server_free_ok [OF w2(1)] ap2) auto
  define w4 where "w4 = w3\<lparr>sessions := (sessions w)(t \<mapsto> ss\<lparr>ss_client := Null, ss_server := Null\<rparr>)\<rparr>"
  obtain h where del: "LIST_DEL t (links w) = Inr h" "ring h lh (as @ bs)"
    using LIST_DEL_ring [OF r] by blast
  have ne: "LIST_ISEMPTY t (links w) = Inr False"
    using ring_neighbours(1) [OF r] ring_distinct [OF r] by (cases bs) (auto simp: LIST_ISEMPTY_def)
  have w4: "links w4 = links w" "w4 = w3\<lparr>sessions := (sessions w3)(t \<mapsto> ss\<lparr>ss_client := Null, ss_server := Null\<rparr>)\<rparr>"
    by (simp_all add: w4_def w3_def w2_def w1_def)
  have run: "session_remove_from_list (Ref t) w = Inr (SESSION_INVALID_SESSION, w4\<lparr>links := h\<rparr>)"
  proof -
    have "sessions w1 = sessions w" "sessions w3 t = Some (ss\<lparr>ss_client := Null\<rparr>)"
      using w2 by (simp_all add: w1_def w3_def)
    then show ?thesis
      using s ne del(1) w4 cfree vfree w2(2)
      by (simp add: session_remove_from_list_def load_session_def upd_session_def w2_def [symmetric]
          ask_links_def on_links_def)
  qed
  have fds: "open_fds w4 = open_fds w - live_fds w (session_sockets cc sv)"
  proof -
    have "live_fds w2 ?vs = live_fds w ?vs" using keep(2) ok by (auto simp: live_fds_def)
    moreover have "open_fds (drops ?cs w) = open_fds w - live_fds w ?cs" "open_fds (drops ?vs w2) = open_fds w2 - live_fds w2 ?vs"
      using ap2 by (simp_all add: drops_open_fds apart_def)
    moreover have "live_fds w (session_sockets cc sv) = live_fds w ?cs \<union> live_fds w ?vs"
      by (auto simp: live_fds_def session_sockets_def)
    ultimately show ?thesis by (auto simp: w4_def w3_def w2(5))
  qed
  have "socks w4 = (\<lambda>x. if Ref x \<in> set (session_sockets cc sv) then None else socks w x)"
    by (auto simp: w4_def w3_def drops_socks w2(4) session_sockets_def)
  moreover have "clients w4 = (clients w)(c := None)" "servers w4 = (servers w)(v := None)"
    by (simp_all add: w4_def w3_def w2_def w1_def)
  ultimately show ?thesis
    using run del(2) fds by (simp add: w4_def)
qed

subsection \<open>Relaying\<close>

text \<open>A packet as it stands in the read buffer: what follows the bytes read does not matter.\<close>

lemma port_command_spec_take:
  "port_command_spec (bs @ r) (length bs) = port_command_spec bs (length bs)"
proof (cases "5 \<le> length bs")
  case True
  have "take (length bs - 5) (drop 5 (bs @ r)) = take (length bs - 5) (drop 5 bs)" using True by simp
  then show ?thesis using True by (simp add: port_command_spec_def port_argument_def)
qed (simp add: port_command_spec_def)

lemma enqueue_take: "enqueue (bs @ r) (length bs) s = enqueue bs (length bs) s"
  by (simp add: enqueue_def)

lemma packet_read_run:
  assumes "script w = r # rs" "0 \<le> rv (r (Read f n))" "length (bytes (r (Read f n))) \<le> n" "n < 2 ^ 31"
  shows "packet_read f n w = Inr (int (length (bytes (r (Read f n)))), bytes (r (Read f n)),
    w\<lparr>script := rs, trace := Read f n # trace w\<rparr>)"
proof -
  have "c_int (int (length (bytes (r (Read f n))))) = int (length (bytes (r (Read f n))))"
    using assms(3,4) by (intro c_int_small) auto
  with assms show ?thesis
    by (subst packet_read.simps) (simp add: sys_read_def sys_def Let_def)
qed

lemma full_write_run:
  assumes "script w = r # rs" "int (length data) \<le> rv (r (Write g data))" "data \<noteq> []" "length data < 2 ^ 31"
  shows "full_write_loop g data 0 w = Inr (int (length data), w\<lparr>script := rs, trace := Write g data # trace w,
    sent := (sent w)(g := sent w g @ data)\<rparr>)"
proof -
  have c: "c_int (int (length data)) = int (length data)" using assms(4) by simp
  have "sys_write g data w = Inr (int (length data), err (r (Write g data)),
      w\<lparr>script := rs, trace := Write g data # trace w, sent := (sent w)(g := sent w g @ data)\<rparr>)"
    using assms(1,2) min_absorb2 [of "length data" "nat (rv (r (Write g data)))"]
    by (simp add: sys_write_def sys_def Let_def)
  then have "packet_write g data w = Inr (int (length data),
      w\<lparr>script := rs, trace := Write g data # trace w, sent := (sent w)(g := sent w g @ data)\<rparr>)"
    by (subst packet_write.simps) (simp add: c)
  then show ?thesis
    using assms(3) by (subst full_write_loop.simps) (simp add: c Let_def)
qed

text \<open>The socket after its bytes were handed to the system.\<close>

definition flushed :: "socket \<Rightarrow> socket" where
  "flushed s = s\<lparr>sk_buffer_used := 0, sk_buffer := Some (replicate (sk_buffer_size s) NUL)\<rparr>"

lemma flushed_queued [simp]: "queued (flushed s) = []" "sock_ok (flushed s)" "sk_fd (flushed s) = sk_fd s"
  by (simp_all add: flushed_def queued_def sock_ok_def)

lemma flush_socket_ends:
  assumes "socks w a = Some s" "sock_ok s" "sk_buffer_size s < 2 ^ 31"
  shows "ends (flush_socket (Ref a) g w) (\<lambda>w'. \<exists>k w1. k \<le> length (queued s) \<and>
    wrote g (take k (queued s)) w w1 \<and>
    w' = (if queued s = [] then w else w1\<lparr>socks := (socks w)(a \<mapsto> flushed s)\<rparr>))"
proof -
  obtain d where d: "sk_buffer s = Some d" "length d = sk_buffer_size s" "sk_buffer_used s \<le> sk_buffer_size s"
    using assms(2) by (rule sock_okE)
  have q: "queued s = take (sk_buffer_used s) d" "queued s = [] \<longleftrightarrow> sk_buffer_used s = 0"
    using d by (auto simp: queued_def)
  show ?thesis
  proof (cases "sk_buffer_used s = 0")
    case True
    then have "flush_socket (Ref a) g w = Inr w" using assms(1) by (simp add: flush_socket_def load_socket_def)
    then show ?thesis using True q(2) by (auto intro: exI [of _ w])
  next
    case False
    have "ends (full_write_loop g (queued s) 0 w) (full_write_post g (queued s) 0 w)"
      using d(3) assms(3) by (intro full_write_loop_ends) (simp add: q(1) d(2))
    then have pw: "ends (packet_full_write g d (sk_buffer_used s) w) (full_write_post g (queued s) 0 w)"
      using d by (simp add: packet_full_write_def q(1))
    have run: "flush_socket (Ref a) g w = seq (packet_full_write g d (sk_buffer_used s) w) (\<lambda>(_, w).
        upd_socket (Ref a) (\<lambda>s'. s'\<lparr>sk_buffer_used := 0, sk_buffer := Some (replicate (sk_buffer_size s) NUL)\<rparr>) w)"
      using assms(1) d False by (simp add: flush_socket_def load_socket_def memset_zero_def)
    have up: "ends (upd_socket (Ref a)
        (\<lambda>s'. s'\<lparr>sk_buffer_used := 0, sk_buffer := Some (replicate (sk_buffer_size s) NUL)\<rparr>) w1)
        (\<lambda>w'. \<exists>k w1. k \<le> length (queued s) \<and> wrote g (take k (queued s)) w w1 \<and>
          w' = (if queued s = [] then w else w1\<lparr>socks := (socks w)(a \<mapsto> flushed s)\<rparr>))"
      if post: "full_write_post g (queued s) 0 w (ret, w1)" for ret w1
    proof -
      obtain k where k: "k \<le> length (queued s)" "wrote g (take k (queued s)) w w1"
        using post by (auto simp: full_write_post_def)
      then have "socks w1 = socks w" using wrote_same_mem by (auto simp: same_mem_def)
      then have "upd_socket (Ref a) (\<lambda>s'. s'\<lparr>sk_buffer_used := 0, sk_buffer := Some (replicate (sk_buffer_size s) NUL)\<rparr>) w1
          = Inr (w1\<lparr>socks := (socks w)(a \<mapsto> flushed s)\<rparr>)"
        using assms(1) by (simp add: upd_socket_def load_socket_def flushed_def)
      with k False q(2) show ?thesis by auto
    qed
    show ?thesis
      unfolding run ends_seq
    proof (rule ends_mono [OF pw])
      fix x assume post: "full_write_post g (queued s) 0 w x"
      obtain ret w1 where x: "x = (ret, w1)" by (cases x)
      show "ends (case x of (_, w) \<Rightarrow> upd_socket (Ref a)
          (\<lambda>s'. s'\<lparr>sk_buffer_used := 0, sk_buffer := Some (replicate (sk_buffer_size s) NUL)\<rparr>) w)
          (\<lambda>w'. \<exists>k w1. k \<le> length (queued s) \<and> wrote g (take k (queued s)) w w1 \<and>
            w' = (if queued s = [] then w else w1\<lparr>socks := (socks w)(a \<mapsto> flushed s)\<rparr>))"
        unfolding x prod.case by (rule up) (use post x in simp)
    qed
  qed
qed

lemma flush_socket_run:
  assumes "socks w a = Some s" "sock_ok s" "sk_buffer_size s < 2 ^ 31" "queued s \<noteq> []"
    and "script w = r # rs" "int (length (queued s)) \<le> rv (r (Write g (queued s)))"
  shows "flush_socket (Ref a) g w = Inr (w\<lparr>socks := (socks w)(a \<mapsto> flushed s), script := rs,
    trace := Write g (queued s) # trace w, sent := (sent w)(g := sent w g @ queued s)\<rparr>)"
proof -
  obtain d where d: "sk_buffer s = Some d" "length d = sk_buffer_size s" "sk_buffer_used s \<le> sk_buffer_size s"
    using assms(2) by (rule sock_okE)
  have q: "queued s = take (sk_buffer_used s) d" "0 < sk_buffer_used s"
    using d assms(4) by (auto simp: queued_def)
  have "full_write_loop g (queued s) 0 w = Inr (int (length (queued s)), w\<lparr>script := rs,
      trace := Write g (queued s) # trace w, sent := (sent w)(g := sent w g @ queued s)\<rparr>)"
    using assms d q by (intro full_write_run) auto
  then have "packet_full_write g d (sk_buffer_used s) w = Inr (int (length (queued s)), w\<lparr>script := rs,
      trace := Write g (queued s) # trace w, sent := (sent w)(g := sent w g @ queued s)\<rparr>)"
    using d by (simp add: packet_full_write_def q(1))
  then show ?thesis
    using assms(1) d q(2)
    by (simp add: flush_socket_def load_socket_def memset_zero_def upd_socket_def flushed_def)
qed

text \<open>
  A session \<open>t\<close> in the list, ready to relay commands: the sockets \<open>a\<close> of the client and \<open>b\<close> of the
  server with their contents, and no descriptor that stands for two things.
\<close>

record relay =
  re_head :: nat
  re_list :: "nat list"
  re_session :: nat
  re_client :: nat
  re_server :: nat
  re_a :: nat
  re_sa :: socket
  re_b :: nat
  re_sb :: socket

definition relaying :: "relay \<Rightarrow> world \<Rightarrow> bool" where
  "relaying r w \<longleftrightarrow> ring (links w) (re_head r) (re_list r) \<and> re_session r \<in> set (re_list r) \<and>
     (\<forall>x \<in> set (re_list r). session_ok w x \<and> x < brk w) \<and>
     (\<exists>ss cc sv. sessions w (re_session r) = Some ss \<and> ss_client ss = Ref (re_client r) \<and> ss_server ss = Ref (re_server r) \<and>
        clients w (re_client r) = Some cc \<and> cl_command_socket cc = Ref (re_a r) \<and>
        servers w (re_server r) = Some sv \<and> sv_command_socket sv = Ref (re_b r)) \<and>
     socks w (re_a r) = Some (re_sa r) \<and> socks w (re_b r) = Some (re_sb r) \<and> sock_ok (re_sa r) \<and> sock_ok (re_sb r) \<and>
     re_b r < brk w \<and> re_a r \<noteq> re_b r \<and> 0 \<le> sk_fd (re_sa r) \<and> 0 \<le> sk_fd (re_sb r) \<and>
     (\<forall>x \<in> set (re_list r). x \<noteq> re_session r \<longrightarrow>
        sk_fd (re_sa r) \<notin> set (session_fds w x) \<and> sk_fd (re_sb r) \<notin> set (session_fds w x)) \<and>
     sk_fd (re_sa r) \<notin> set (server_fds w (Ref (re_server r))) \<and>
     sk_fd (re_sb r) \<notin> set (client_fds w (Ref (re_client r)))"

lemma relaying_session_fds:
  assumes "relaying r w"
  shows "sk_fd (re_sa r) \<in> set (session_fds w (re_session r))" "sk_fd (re_sb r) \<in> set (session_fds w (re_session r))"
  using assms by (auto simp: relaying_def session_fds_def client_fds_def server_fds_def ptr_fds_def)

lemma find_unique:
  "t \<in> set xs \<Longrightarrow> P t \<Longrightarrow> \<forall>x \<in> set xs. x \<noteq> t \<longrightarrow> \<not> P x \<Longrightarrow> find P xs = Some t"
  by (induction xs) auto

lemma relaying_find:
  assumes "relaying r w" "f = sk_fd (re_sa r) \<or> f = sk_fd (re_sb r)"
  shows "get_session_from_list (Ref (re_head r)) f w = Inr (Ref (re_session r), None)"
proof -
  have f: "0 \<le> f" "f \<in> set (session_fds w (re_session r))"
    "\<forall>x \<in> set (re_list r). x \<noteq> re_session r \<longrightarrow> f \<notin> set (session_fds w x)"
    using assms relaying_session_fds [OF assms(1)] by (auto simp: relaying_def)
  have "find (\<lambda>x. f \<in> set (session_fds w x)) (re_list r) = Some (re_session r)"
    by (rule find_unique) (use assms f in \<open>auto simp: relaying_def\<close>)
  then show ?thesis
    using get_session_run [of w "re_head r" "re_list r" f] assms(1) f by (simp add: relaying_def)
qed

text \<open>Storing a socket with the same descriptor where one was keeps every session well formed.\<close>

lemma store_socket_same:
  assumes "socks w x = Some s" "sk_fd s' = sk_fd s" "socks w' = (socks w)(x \<mapsto> s')"
    and "clients w' = clients w" "servers w' = servers w" "sessions w' = sessions w"
  shows "session_ok w' t = session_ok w t" "session_fds w' t = session_fds w t"
    "client_fds w' p = client_fds w p" "server_fds w' p = server_fds w p" "sock_ptr_ok w' q = sock_ptr_ok w q"
    "client_ptr_ok w' p = client_ptr_ok w p" "server_ptr_ok w' p = server_ptr_ok w p"
proof -
  have o: "sock_ptr_ok w' q = sock_ptr_ok w q" "ptr_fds w' q = ptr_fds w q" for q
    using assms by (auto simp: sock_ptr_ok_def ptr_fds_def split: ptr.splits)
  show "sock_ptr_ok w' q = sock_ptr_ok w q" by (rule o)
  show c: "client_fds w' p = client_fds w p" "server_fds w' p = server_fds w p" for p
    by (simp_all add: client_fds_def server_fds_def o assms split: ptr.split option.split)
  show k: "client_ptr_ok w' p = client_ptr_ok w p" "server_ptr_ok w' p = server_ptr_ok w p" for p
    by (simp_all add: client_ptr_ok_def server_ptr_ok_def o assms split: ptr.split option.split)
  show "session_ok w' t = session_ok w t" "session_fds w' t = session_fds w t"
    by (simp_all add: session_ok_def session_fds_def c k assms split: option.split)
qed

lemma relaying_store_b:
  assumes "relaying r w" "sk_fd s' = sk_fd (re_sb r)" "sock_ok s'"
    and "w' = w\<lparr>socks := (socks w)(re_b r \<mapsto> s'), script := sc, trace := tr, sent := st\<rparr>"
  shows "relaying (r\<lparr>re_sb := s'\<rparr>) w'"
proof -
  have b: "socks w (re_b r) = Some (re_sb r)" using assms(1) by (simp add: relaying_def)
  have w': "socks w' = (socks w)(re_b r \<mapsto> s')" "clients w' = clients w" "servers w' = servers w"
    "sessions w' = sessions w" "links w' = links w" "brk w' = brk w" by (simp_all add: assms(4))
  show ?thesis
    using assms(1-3) unfolding relaying_def
    by (simp add: store_socket_same [OF b assms(2) w'(1-4)] w')
qed

lemma relaying_store_a:
  assumes "relaying r w" "sk_fd s' = sk_fd (re_sa r)" "sock_ok s'"
    and "w' = w\<lparr>socks := (socks w)(re_a r \<mapsto> s'), script := sc, trace := tr, sent := st\<rparr>"
  shows "relaying (r\<lparr>re_sa := s'\<rparr>) w'"
proof -
  have a: "socks w (re_a r) = Some (re_sa r)" using assms(1) by (simp add: relaying_def)
  have w': "socks w' = (socks w)(re_a r \<mapsto> s')" "clients w' = clients w" "servers w' = servers w"
    "sessions w' = sessions w" "links w' = links w" "brk w' = brk w" by (simp_all add: assms(4))
  show ?thesis
    using assms(1-3) unfolding relaying_def
    by (simp add: store_socket_same [OF a assms(2) w'(1-4)] w')
qed

text \<open>Events: bytes to read, room to write.\<close>

definition in_event :: "int \<Rightarrow> epoll_event" where
  "in_event f = \<lparr>ev_fd = f, ev_in = True, ev_out = False\<rparr>"

definition out_event :: "int \<Rightarrow> epoll_event" where
  "out_event f = \<lparr>ev_fd = f, ev_in = False, ev_out = True\<rparr>"

text \<open>A packet that is relayed as it is: it fits the read buffer and the room in the other socket, and
  is no PORT command.\<close>

definition plain :: "char list \<Rightarrow> socket \<Rightarrow> bool" where
  "plain bs s \<longleftrightarrow> bs \<noteq> [] \<and> length bs \<le> COMMAND_BUFFER_SIZE \<and>
     length bs + sk_buffer_used s \<le> sk_buffer_size s \<and> \<not> port_command_spec bs (length bs)"

lemma buf_size: "COMMAND_BUFFER_SIZE < 2 ^ 31"
  by (simp add: COMMAND_BUFFER_SIZE_def)

lemma relayingD:
  assumes "relaying r w"
  obtains ss cc sv where "sessions w (re_session r) = Some ss" "ss_client ss = Ref (re_client r)"
    "ss_server ss = Ref (re_server r)" "clients w (re_client r) = Some cc" "cl_command_socket cc = Ref (re_a r)"
    "servers w (re_server r) = Some sv" "sv_command_socket sv = Ref (re_b r)"
    "sock_ptr_ok w (sv_data_socket sv)" "sock_ptr_ok w (sv_connection_socket sv)" "sock_ptr_ok w (cl_data_socket cc)"
    "sk_fd (re_sa r) \<notin> set (ptr_fds w (sv_data_socket sv))" "sk_fd (re_sa r) \<noteq> sk_fd (re_sb r)"
    "sk_fd (re_sa r) \<notin> set (ptr_fds w (sv_connection_socket sv))"
    "sk_fd (re_sb r) \<notin> set (ptr_fds w (cl_data_socket cc))"
proof -
  obtain ss cc sv where s: "sessions w (re_session r) = Some ss" "ss_client ss = Ref (re_client r)"
    "ss_server ss = Ref (re_server r)" "clients w (re_client r) = Some cc" "cl_command_socket cc = Ref (re_a r)"
    "servers w (re_server r) = Some sv" "sv_command_socket sv = Ref (re_b r)"
    and o: "session_ok w (re_session r)" "sk_fd (re_sa r) \<notin> set (server_fds w (Ref (re_server r)))"
    "sk_fd (re_sb r) \<notin> set (client_fds w (Ref (re_client r)))" "socks w (re_b r) = Some (re_sb r)"
    using assms unfolding relaying_def by blast
  show thesis
    by (rule that [OF s]) (use s o in \<open>auto simp: session_ok_def client_ptr_ok_def server_ptr_ok_def server_fds_def
      client_fds_def ptr_fds_def\<close>)
qed

lemma client_read_plain:
  assumes rl: "relaying r w" and sc: "script w = q # rs" and rv: "0 \<le> rv (q (Read f COMMAND_BUFFER_SIZE))"
    and f: "f = sk_fd (re_sa r)" and bs: "bs = bytes (q (Read f COMMAND_BUFFER_SIZE))" and pl: "plain bs (re_sb r)"
  shows "session_read_packet (Ref (re_session r)) f w = Inr (session_rc SESSION_SUCCESS,
    w\<lparr>socks := (socks w)(re_b r \<mapsto> enqueue bs (length bs) (re_sb r)), script := rs,
      trace := Read f COMMAND_BUFFER_SIZE # trace w\<rparr>)"
proof -
  obtain ss cc sv where s: "sessions w (re_session r) = Some ss" "ss_client ss = Ref (re_client r)"
    "ss_server ss = Ref (re_server r)" "clients w (re_client r) = Some cc" "cl_command_socket cc = Ref (re_a r)"
    "servers w (re_server r) = Some sv" "sv_command_socket sv = Ref (re_b r)"
    "sock_ptr_ok w (sv_data_socket sv)" "sock_ptr_ok w (sv_connection_socket sv)" "sock_ptr_ok w (cl_data_socket cc)"
    "f \<notin> set (ptr_fds w (sv_data_socket sv))" "f \<noteq> sk_fd (re_sb r)"
    "f \<notin> set (ptr_fds w (sv_connection_socket sv))"
    using relayingD [OF rl] unfolding f by metis
  have k: "socks w (re_a r) = Some (re_sa r)" "socks w (re_b r) = Some (re_sb r)" "sock_ok (re_sb r)" "re_b r < brk w"
    "0 \<le> f"
    using rl by (auto simp: relaying_def f)
  let ?w = "w\<lparr>script := rs, trace := Read f COMMAND_BUFFER_SIZE # trace w\<rparr>"
  let ?buf = "bs @ replicate (COMMAND_BUFFER_SIZE - length bs) NUL"
  have p: "bs \<noteq> []" "length bs \<le> COMMAND_BUFFER_SIZE" "length bs + sk_buffer_used (re_sb r) \<le> sk_buffer_size (re_sb r)"
    "\<not> port_command_spec ?buf (length bs)"
    using pl by (auto simp: plain_def port_command_spec_take)
  have read: "packet_read f COMMAND_BUFFER_SIZE w = Inr (int (length bs), bs, ?w)"
    using packet_read_run [OF sc rv _ buf_size] p(2) unfolding bs by simp
  have ok: "sock_ptr_ok ?w q = sock_ptr_ok w q" "ptr_fds ?w q = ptr_fds w q" for q
    by (simp_all add: sock_ptr_ok_def ptr_fds_def split: ptr.split)
  have cmd: "socket_has_fd (Ref (re_b r)) f ?w = Inr False"
    using s k by (simp add: socket_has_fd_def fd_of_def load_socket_def)
  have kind: "session_get_server_socket_type f (Ref (re_server r)) ?w = Inr None"
    using s k cmd by (simp add: session_get_server_socket_type_def load_server_def socket_has_fd_run ok)
  have kind2: "session_get_client_socket_type f (Ref (re_client r)) ?w = Inr (Some PORT_TYPE_COMMAND)"
    using s k by (simp add: session_get_client_socket_type_def load_client_def socket_has_fd_def fd_of_def
        load_socket_def f)
  have send: "send_packet_to_server (Ref (re_session r)) (Some ?buf) (int (length bs)) PORT_TYPE_COMMAND ?w =
    Inr (SERVER_SUCCESS, Some ?buf, ?w\<lparr>socks := (socks ?w)(re_b r \<mapsto> enqueue ?buf (length bs) (re_sb r))\<rparr>)"
    using send_plain_run [of ?w "re_session r" ss "re_server r" sv "re_b r" "re_sb r" "int (length bs)" ?buf] p s k
    by (simp add: server_side_def)
  have noport: "is_port_command (Some ?buf) (int (length bs)) = Inr False"
    using p(4) by (subst is_port_command_run) auto
  show ?thesis
    using s k p(1,2)
    by (simp add: session_read_packet_def read load_session_def kind dispatch_packet_def kind2
        client_command_received_def noport send enqueue_take Let_def)
qed

lemma client_in_event:
  assumes rl: "relaying r w" and sc: "script w = q # rs" and rv: "0 \<le> rv (q (Read f COMMAND_BUFFER_SIZE))"
    and f: "f = sk_fd (re_sa r)" and bs: "bs = bytes (q (Read f COMMAND_BUFFER_SIZE))" and pl: "plain bs (re_sb r)"
    and ne: "f \<noteq> pf"
  shows "handle_event (Ref (re_head r)) pf (in_event f) w = Inr (True,
    w\<lparr>socks := (socks w)(re_b r \<mapsto> enqueue bs (length bs) (re_sb r)), script := rs,
      trace := Read f COMMAND_BUFFER_SIZE # trace w\<rparr>)"
proof -
  obtain ss sv where s: "sessions w (re_session r) = Some ss" "ss_server ss = Ref (re_server r)"
    "servers w (re_server r) = Some sv" "sock_ptr_ok w (sv_data_socket sv)" "f \<notin> set (ptr_fds w (sv_data_socket sv))"
    using relayingD [OF rl] unfolding f by metis
  show ?thesis
    using s ne relaying_find [OF rl disjI1 [OF f]]
    by (simp add: handle_event_def in_event_def load_session_def load_server_def socket_has_fd_run
        client_read_plain [OF rl sc rv f bs pl] session_rc_def)
qed

lemma server_out_event:
  assumes rl: "relaying r w" and g: "g = sk_fd (re_sb r)" and ne: "g \<noteq> pf" and sz: "sk_buffer_size (re_sb r) < 2 ^ 31"
    and q: "queued (re_sb r) \<noteq> []" and sc: "script w = y # rs"
    and all: "int (length (queued (re_sb r))) \<le> rv (y (Write g (queued (re_sb r))))"
  shows "handle_event (Ref (re_head r)) pf (out_event g) w = Inr (True,
    w\<lparr>socks := (socks w)(re_b r \<mapsto> flushed (re_sb r)), script := rs,
      trace := Write g (queued (re_sb r)) # trace w, sent := (sent w)(g := sent w g @ queued (re_sb r))\<rparr>)"
proof -
  obtain ss cc sv where s: "sessions w (re_session r) = Some ss" "ss_client ss = Ref (re_client r)"
    "ss_server ss = Ref (re_server r)" "clients w (re_client r) = Some cc" "cl_command_socket cc = Ref (re_a r)"
    "servers w (re_server r) = Some sv" "sv_command_socket sv = Ref (re_b r)"
    "sock_ptr_ok w (cl_data_socket cc)" "sk_fd (re_sa r) \<noteq> g" "g \<notin> set (ptr_fds w (cl_data_socket cc))"
    using relayingD [OF rl] unfolding g by metis
  have k: "socks w (re_a r) = Some (re_sa r)" "socks w (re_b r) = Some (re_sb r)" "sock_ok (re_sb r)" "0 \<le> g"
    using rl by (auto simp: relaying_def g)
  have cmd: "socket_has_fd (Ref (re_a r)) g w = Inr False"
    using s k by (simp add: socket_has_fd_def fd_of_def load_socket_def)
  have kind: "session_get_client_socket_type g (Ref (re_client r)) w = Inr None"
    using s k cmd by (simp add: session_get_client_socket_type_def load_client_def socket_has_fd_run)
  have kind2: "session_get_server_socket_type g (Ref (re_server r)) w = Inr (Some PORT_TYPE_COMMAND)"
    using s k by (simp add: session_get_server_socket_type_def load_server_def socket_has_fd_def fd_of_def
        load_socket_def g)
  show ?thesis
    using s ne relaying_find [OF rl disjI2 [OF g]]
    by (simp add: handle_event_def out_event_def session_write_packet_def load_session_def kind kind2
        load_client_def load_server_def flush_socket_run [OF k(2,3) sz q sc all])
qed

text \<open>The other direction: what the server sends on its command connection.\<close>

definition fits :: "char list \<Rightarrow> socket \<Rightarrow> bool" where
  "fits bs s \<longleftrightarrow> bs \<noteq> [] \<and> length bs \<le> COMMAND_BUFFER_SIZE \<and> length bs + sk_buffer_used s \<le> sk_buffer_size s"

lemma server_in_event:
  assumes rl: "relaying r w" and sc: "script w = q # rs" and rv: "0 \<le> rv (q (Read g COMMAND_BUFFER_SIZE))"
    and g: "g = sk_fd (re_sb r)" and bs: "bs = bytes (q (Read g COMMAND_BUFFER_SIZE))" and pl: "fits bs (re_sa r)"
    and ne: "g \<noteq> pf" and data: "\<And>v. servers w (re_server r) = Some v \<Longrightarrow> g \<notin> set (ptr_fds w (sv_data_socket v))"
  shows "handle_event (Ref (re_head r)) pf (in_event g) w = Inr (True,
    w\<lparr>socks := (socks w)(re_a r \<mapsto> enqueue bs (length bs) (re_sa r)), script := rs,
      trace := Read g COMMAND_BUFFER_SIZE # trace w\<rparr>)"
proof -
  obtain ss cc sv where s: "sessions w (re_session r) = Some ss" "ss_client ss = Ref (re_client r)"
    "ss_server ss = Ref (re_server r)" "clients w (re_client r) = Some cc" "cl_command_socket cc = Ref (re_a r)"
    "servers w (re_server r) = Some sv" "sv_command_socket sv = Ref (re_b r)" "sock_ptr_ok w (sv_data_socket sv)"
    using relayingD [OF rl] by metis
  have k: "socks w (re_a r) = Some (re_sa r)" "socks w (re_b r) = Some (re_sb r)" "sock_ok (re_sa r)" "0 \<le> g"
    using rl by (auto simp: relaying_def g)
  let ?w = "w\<lparr>script := rs, trace := Read g COMMAND_BUFFER_SIZE # trace w\<rparr>"
  let ?buf = "bs @ replicate (COMMAND_BUFFER_SIZE - length bs) NUL"
  have p: "bs \<noteq> []" "length bs \<le> COMMAND_BUFFER_SIZE" "length bs + sk_buffer_used (re_sa r) \<le> sk_buffer_size (re_sa r)"
    using pl by (auto simp: fits_def)
  have read: "packet_read g COMMAND_BUFFER_SIZE w = Inr (int (length bs), bs, ?w)"
    using packet_read_run [OF sc rv _ buf_size] p(2) unfolding bs by simp
  have kind: "session_get_server_socket_type g (Ref (re_server r)) ?w = Inr (Some PORT_TYPE_COMMAND)"
    using s k by (simp add: session_get_server_socket_type_def load_server_def socket_has_fd_def fd_of_def
        load_socket_def g)
  have wr: "session_buffer_write (Ref (re_a r)) (Some ?buf) (length bs) ?w = Inr (SESSION_SUCCESS,
      ?w\<lparr>socks := (socks ?w)(re_a r \<mapsto> enqueue bs (length bs) (re_sa r))\<rparr>)"
    using p k session_buffer_write_run [of ?w "re_a r" "re_sa r" "length bs" ?buf] by (simp add: enqueue_take)
  have "session_read_packet (Ref (re_session r)) g w = Inr (session_rc SESSION_SUCCESS,
      w\<lparr>socks := (socks w)(re_a r \<mapsto> enqueue bs (length bs) (re_sa r)), script := rs,
        trace := Read g COMMAND_BUFFER_SIZE # trace w\<rparr>)"
    using s k p(1)
    by (simp add: session_read_packet_def read load_session_def kind dispatch_packet_def
        server_command_received_def send_packet_to_client_def load_client_def wr Let_def)
  then show ?thesis
    using s ne relaying_find [OF rl disjI2 [OF g]] data
    by (simp add: handle_event_def in_event_def load_session_def load_server_def socket_has_fd_run session_rc_def)
qed

lemma client_out_event:
  assumes rl: "relaying r w" and f: "f = sk_fd (re_sa r)" and ne: "f \<noteq> pf" and sz: "sk_buffer_size (re_sa r) < 2 ^ 31"
    and q: "queued (re_sa r) \<noteq> []" and sc: "script w = y # rs"
    and all: "int (length (queued (re_sa r))) \<le> rv (y (Write f (queued (re_sa r))))"
  shows "handle_event (Ref (re_head r)) pf (out_event f) w = Inr (True,
    w\<lparr>socks := (socks w)(re_a r \<mapsto> flushed (re_sa r)), script := rs,
      trace := Write f (queued (re_sa r)) # trace w, sent := (sent w)(f := sent w f @ queued (re_sa r))\<rparr>)"
proof -
  obtain ss cc sv where s: "sessions w (re_session r) = Some ss" "ss_client ss = Ref (re_client r)"
    "ss_server ss = Ref (re_server r)" "clients w (re_client r) = Some cc" "cl_command_socket cc = Ref (re_a r)"
    using relayingD [OF rl] by metis
  have k: "socks w (re_a r) = Some (re_sa r)" "sock_ok (re_sa r)" "0 \<le> f"
    using rl by (auto simp: relaying_def f)
  have kind: "session_get_client_socket_type f (Ref (re_client r)) w = Inr (Some PORT_TYPE_COMMAND)"
    using s k by (simp add: session_get_client_socket_type_def load_client_def socket_has_fd_def fd_of_def
        load_socket_def f)
  show ?thesis
    using s ne relaying_find [OF rl disjI1 [OF f]]
    by (simp add: handle_event_def out_event_def session_write_packet_def load_session_def kind
        load_client_def flush_socket_run [OF k(1,2) sz q sc all])
qed

lemma relay_to_server_run:
  assumes rl: "relaying r w" and sc: "script w = q # y # rs" and rv: "0 \<le> rv (q (Read f COMMAND_BUFFER_SIZE))"
    and f: "f = sk_fd (re_sa r)" and g: "g = sk_fd (re_sb r)" and ne: "f \<noteq> pf" "g \<noteq> pf"
    and bs: "bs = bytes (q (Read f COMMAND_BUFFER_SIZE))" and pl: "plain bs (re_sb r)"
    and sz: "sk_buffer_size (re_sb r) < 2 ^ 31" and all: "\<And>d. int (sk_buffer_size (re_sb r)) \<le> rv (y (Write g d))"
  shows "\<exists>w'. handle_events (Ref (re_head r)) pf [in_event f, out_event g] w = Inr w' \<and>
    sent w' = (sent w)(g := sent w g @ queued (re_sb r) @ bs) \<and> relaying (r\<lparr>re_sb := flushed (re_sb r)\<rparr>) w' \<and>
    script w' = rs"
proof -
  have b: "sock_ok (re_sb r)" "socks w (re_b r) = Some (re_sb r)" using rl by (auto simp: relaying_def)
  let ?s = "enqueue bs (length bs) (re_sb r)"
  have e: "queued ?s = queued (re_sb r) @ bs" "sock_ok ?s" "sk_fd ?s = sk_fd (re_sb r)" "sk_buffer_size ?s = sk_buffer_size (re_sb r)"
    using enqueue_queued [OF b(1), of "length bs" bs] pl by (auto simp: plain_def)
  let ?w1 = "w\<lparr>socks := (socks w)(re_b r \<mapsto> ?s), script := y # rs, trace := Read f COMMAND_BUFFER_SIZE # trace w\<rparr>"
  have 1: "handle_event (Ref (re_head r)) pf (in_event f) w = Inr (True, ?w1)"
    by (rule client_in_event [OF rl sc rv f bs pl ne(1)])
  have rl1: "relaying (r\<lparr>re_sb := ?s\<rparr>) ?w1"
    by (rule relaying_store_b [OF rl e(3) e(2), where sc = "y # rs" and st = "sent w"
          and tr = "Read f COMMAND_BUFFER_SIZE # trace w"]) simp
  have ne2: "queued ?s \<noteq> []" using pl e(1) by (simp add: plain_def)
  have "int (length (queued ?s)) \<le> rv (y (Write g (queued ?s)))"
  proof -
    have "length (queued ?s) \<le> sk_buffer_size ?s" using e(2) by (auto simp: queued_def sock_ok_def split: option.splits)
    then show ?thesis using all [of "queued ?s"] e(4) by simp
  qed
  then have 2: "handle_event (Ref (re_head r)) pf (out_event g) ?w1 = Inr (True,
      ?w1\<lparr>socks := (socks ?w1)(re_b r \<mapsto> flushed ?s), script := rs,
        trace := Write g (queued ?s) # trace ?w1, sent := (sent ?w1)(g := sent ?w1 g @ queued ?s)\<rparr>)"
    using server_out_event [OF rl1, of g pf y rs] g ne(2) sz ne2 e by simp
  let ?w2 = "?w1\<lparr>socks := (socks ?w1)(re_b r \<mapsto> flushed ?s), script := rs,
        trace := Write g (queued ?s) # trace ?w1, sent := (sent ?w1)(g := sent ?w1 g @ queued ?s)\<rparr>"
  have fl: "flushed ?s = flushed (re_sb r)" by (simp add: flushed_def enqueue_def)
  have "relaying ((r\<lparr>re_sb := ?s\<rparr>)\<lparr>re_sb := flushed ?s\<rparr>) ?w2"
    by (rule relaying_store_b [OF rl1, where sc = rs and st = "sent ?w2" and tr = "trace ?w2"]) simp_all
  then have "relaying (r\<lparr>re_sb := flushed (re_sb r)\<rparr>) ?w2" by (simp add: fl)
  moreover have "sent ?w2 = (sent w)(g := sent w g @ queued (re_sb r) @ bs)" using e(1) by simp
  moreover have "handle_events (Ref (re_head r)) pf [in_event f, out_event g] w = Inr ?w2"
    by (simp add: 1 2)
  ultimately show ?thesis by (intro exI [of _ ?w2]) simp
qed

lemma relay_to_client_run:
  assumes rl: "relaying r w" and sc: "script w = q # y # rs" and rv: "0 \<le> rv (q (Read g COMMAND_BUFFER_SIZE))"
    and f: "f = sk_fd (re_sa r)" and g: "g = sk_fd (re_sb r)" and ne: "f \<noteq> pf" "g \<noteq> pf"
    and bs: "bs = bytes (q (Read g COMMAND_BUFFER_SIZE))" and pl: "fits bs (re_sa r)"
    and data: "\<And>v. servers w (re_server r) = Some v \<Longrightarrow> g \<notin> set (ptr_fds w (sv_data_socket v))"
    and sz: "sk_buffer_size (re_sa r) < 2 ^ 31" and all: "\<And>d. int (sk_buffer_size (re_sa r)) \<le> rv (y (Write f d))"
  shows "\<exists>w'. handle_events (Ref (re_head r)) pf [in_event g, out_event f] w = Inr w' \<and>
    sent w' = (sent w)(f := sent w f @ queued (re_sa r) @ bs) \<and> relaying (r\<lparr>re_sa := flushed (re_sa r)\<rparr>) w' \<and>
    script w' = rs"
proof -
  have b: "sock_ok (re_sa r)" "socks w (re_a r) = Some (re_sa r)" using rl by (auto simp: relaying_def)
  let ?s = "enqueue bs (length bs) (re_sa r)"
  have e: "queued ?s = queued (re_sa r) @ bs" "sock_ok ?s" "sk_fd ?s = sk_fd (re_sa r)" "sk_buffer_size ?s = sk_buffer_size (re_sa r)"
    using enqueue_queued [OF b(1), of "length bs" bs] pl by (auto simp: fits_def)
  let ?w1 = "w\<lparr>socks := (socks w)(re_a r \<mapsto> ?s), script := y # rs, trace := Read g COMMAND_BUFFER_SIZE # trace w\<rparr>"
  have 1: "handle_event (Ref (re_head r)) pf (in_event g) w = Inr (True, ?w1)"
    by (rule server_in_event [OF rl sc rv g bs pl ne(2) data])
  have rl1: "relaying (r\<lparr>re_sa := ?s\<rparr>) ?w1"
    by (rule relaying_store_a [OF rl e(3) e(2), where sc = "y # rs" and st = "sent w"
          and tr = "Read g COMMAND_BUFFER_SIZE # trace w"]) simp
  have ne2: "queued ?s \<noteq> []" using pl e(1) by (simp add: fits_def)
  have "int (length (queued ?s)) \<le> rv (y (Write f (queued ?s)))"
  proof -
    have "length (queued ?s) \<le> sk_buffer_size ?s" using e(2) by (auto simp: queued_def sock_ok_def split: option.splits)
    then show ?thesis using all [of "queued ?s"] e(4) by simp
  qed
  then have 2: "handle_event (Ref (re_head r)) pf (out_event f) ?w1 = Inr (True,
      ?w1\<lparr>socks := (socks ?w1)(re_a r \<mapsto> flushed ?s), script := rs,
        trace := Write f (queued ?s) # trace ?w1, sent := (sent ?w1)(f := sent ?w1 f @ queued ?s)\<rparr>)"
    using client_out_event [OF rl1, of f pf y rs] f ne(1) sz ne2 e by simp
  let ?w2 = "?w1\<lparr>socks := (socks ?w1)(re_a r \<mapsto> flushed ?s), script := rs,
        trace := Write f (queued ?s) # trace ?w1, sent := (sent ?w1)(f := sent ?w1 f @ queued ?s)\<rparr>"
  have fl: "flushed ?s = flushed (re_sa r)" by (simp add: flushed_def enqueue_def)
  have "relaying ((r\<lparr>re_sa := ?s\<rparr>)\<lparr>re_sa := flushed ?s\<rparr>) ?w2"
    by (rule relaying_store_a [OF rl1, where sc = rs and st = "sent ?w2" and tr = "trace ?w2"]) simp_all
  then have "relaying (r\<lparr>re_sa := flushed (re_sa r)\<rparr>) ?w2" by (simp add: fl)
  moreover have "sent ?w2 = (sent w)(f := sent w f @ queued (re_sa r) @ bs)" using e(1) by simp
  moreover have "handle_events (Ref (re_head r)) pf [in_event g, out_event f] w = Inr ?w2"
    by (simp add: 1 2)
  ultimately show ?thesis by (intro exI [of _ ?w2]) simp
qed

subsection \<open>The demonstration world\<close>

definition demo_relay :: relay where
  "demo_relay = \<lparr>re_head = 6, re_list = [4], re_session = 4, re_client = 2, re_server = 3,
     re_a = 0, re_sa = init_socket 4 64 zero_addr, re_b = 1, re_sb = init_socket 5 64 zero_addr\<rparr>"

lemma demo_session_facts:
  "session_ok (demo rs) 4" "session_fds (demo rs) 4 = [4, 5]"
  "server_fds (demo rs) (Ref 3) = [5]" "client_fds (demo rs) (Ref 2) = [4]"
  by (simp_all add: session_ok_def session_fds_def client_ptr_ok_def server_ptr_ok_def sock_ptr_ok_def ptr_fds_def
      server_fds_def client_fds_def demo_def demo_session_def demo_server_def)

lemma demo_relaying: "relaying demo_relay (demo rs)"
proof -
  have "sessions (demo rs) 4 = Some demo_session" "socks (demo rs) 0 = Some (init_socket 4 64 zero_addr)"
    "socks (demo rs) 1 = Some (init_socket 5 64 zero_addr)" "servers (demo rs) 3 = Some demo_server"
    "clients (demo rs) 2 = Some \<lparr>cl_address = zero_addr, cl_command_socket = Ref 0, cl_data_socket = Null\<rparr>"
    by (simp_all add: demo_def)
  then show ?thesis
    by (simp add: relaying_def demo_relay_def demo_rings demo_session_facts demo_session_def demo_server_def)
qed

definition incoming :: "char list \<Rightarrow> call \<Rightarrow> reply" where
  "incoming bs c = (answer 1 c)\<lparr>bytes := bs\<rparr>"

subsection \<open>Properties\<close>

text \<open>C1: Relaying to the server, through the event loop: when a client's command descriptor is
  readable and the server's is writable, the bytes read (no PORT command, room in the buffer) are
  exactly what is appended to what the server has been sent, after the bytes that were waiting. The
  session stays well formed with an empty buffer, and no other descriptor is written to.\<close>

theorem relay_to_server:
  assumes "relaying r w" "script w = q # y # rs" "0 \<le> rv (q (Read f COMMAND_BUFFER_SIZE))"
    and "f = sk_fd (re_sa r)" "g = sk_fd (re_sb r)" "f \<noteq> pf" "g \<noteq> pf"
    and "bs = bytes (q (Read f COMMAND_BUFFER_SIZE))" "plain bs (re_sb r)"
    and "sk_buffer_size (re_sb r) < 2 ^ 31" "\<And>d. int (sk_buffer_size (re_sb r)) \<le> rv (y (Write g d))"
  shows "\<exists>w'. handle_events (Ref (re_head r)) pf [in_event f, out_event g] w = Inr w' \<and>
    sent w' = (sent w)(g := sent w g @ queued (re_sb r) @ bs) \<and> relaying (r\<lparr>re_sb := flushed (re_sb r)\<rparr>) w' \<and>
    script w' = rs"
  by (rule relay_to_server_run [OF assms])

theorem relay_to_server_witness:
  "\<exists>w'. handle_events (Ref 6) 9 [in_event 4, out_event 5] (demo [incoming ''NOOP'', answer 64]) = Inr w' \<and>
     sent w' 5 = ''NOOP'' \<and> sent w' 4 = []"
proof -
  let ?w = "demo [incoming ''NOOP'', answer 64]"
  have "plain ''NOOP'' (init_socket 5 64 zero_addr)"
    by (simp add: plain_def port_command_spec_def COMMAND_BUFFER_SIZE_def)
  then have "\<exists>w'. handle_events (Ref (re_head demo_relay)) 9 [in_event 4, out_event 5] ?w = Inr w' \<and>
      sent w' = (sent ?w)(5 := sent ?w 5 @ queued (re_sb demo_relay) @ ''NOOP'') \<and>
      relaying (demo_relay\<lparr>re_sb := flushed (re_sb demo_relay)\<rparr>) w' \<and> script w' = []"
    by (intro relay_to_server [where q = "incoming ''NOOP''" and y = "answer 64"] demo_relaying)
      (simp_all add: incoming_def answer_def demo_relay_def)
  then show ?thesis by (auto simp: demo_relay_def demo_def boot_def)
qed

text \<open>C2: Relaying to the client: what the server sends on its command connection is exactly what is
  appended to what the client has been sent.\<close>

theorem relay_to_client:
  assumes "relaying r w" "script w = q # y # rs" "0 \<le> rv (q (Read g COMMAND_BUFFER_SIZE))"
    and "f = sk_fd (re_sa r)" "g = sk_fd (re_sb r)" "f \<noteq> pf" "g \<noteq> pf"
    and "bs = bytes (q (Read g COMMAND_BUFFER_SIZE))" "fits bs (re_sa r)"
    and "\<And>v. servers w (re_server r) = Some v \<Longrightarrow> g \<notin> set (ptr_fds w (sv_data_socket v))"
    and "sk_buffer_size (re_sa r) < 2 ^ 31" "\<And>d. int (sk_buffer_size (re_sa r)) \<le> rv (y (Write f d))"
  shows "\<exists>w'. handle_events (Ref (re_head r)) pf [in_event g, out_event f] w = Inr w' \<and>
    sent w' = (sent w)(f := sent w f @ queued (re_sa r) @ bs) \<and> relaying (r\<lparr>re_sa := flushed (re_sa r)\<rparr>) w' \<and>
    script w' = rs"
  by (rule relay_to_client_run [OF assms])

theorem relay_to_client_witness:
  "\<exists>w'. handle_events (Ref 6) 9 [in_event 5, out_event 4] (demo [incoming ''220'', answer 64]) = Inr w' \<and>
     sent w' 4 = ''220'' \<and> sent w' 5 = []"
proof -
  let ?w = "demo [incoming ''220'', answer 64]"
  have "fits ''220'' (init_socket 4 64 zero_addr)"
    by (simp add: fits_def COMMAND_BUFFER_SIZE_def)
  then have "\<exists>w'. handle_events (Ref (re_head demo_relay)) 9 [in_event 5, out_event 4] ?w = Inr w' \<and>
      sent w' = (sent ?w)(4 := sent ?w 4 @ queued (re_sa demo_relay) @ ''220'') \<and>
      relaying (demo_relay\<lparr>re_sa := flushed (re_sa demo_relay)\<rparr>) w' \<and> script w' = []"
    by (intro relay_to_client [where q = "incoming ''220''" and y = "answer 64"] demo_relaying)
      (auto simp: incoming_def answer_def demo_relay_def demo_def demo_server_def ptr_fds_def boot_def)
  then show ?thesis by (auto simp: demo_relay_def demo_def boot_def)
qed

text \<open>C19: \<open>get_session_from_list\<close> on a list of well-formed sessions returns the first session, in list
  order, that has a socket with the descriptor, and NULL with its error code when there is none;
  the loop always ends.\<close>

theorem get_session_finds_first:
  assumes "ring (links w) lh xs" "\<forall>x \<in> set xs. session_ok w x \<and> x < brk w" "0 \<le> f"
  shows "get_session_from_list (Ref lh) f w =
    Inr (case find (\<lambda>x. f \<in> set (session_fds w x)) xs of
           None \<Rightarrow> (Null, Some SESSION_INVALID_SOCKET) | Some x \<Rightarrow> (Ref x, None))"
  by (rule get_session_run [OF assms])

theorem get_session_finds_first_witness:
  "get_session_from_list (Ref 6) 5 (demo []) = Inr (Ref 4, None) \<and>
   get_session_from_list (Ref 6) 8 (demo []) = Inr (Null, Some SESSION_INVALID_SOCKET)"
  using get_session_finds_first [OF demo_rings(2), of "[]" 5] get_session_finds_first [OF demo_rings(2), of "[]" 8]
  by (simp add: demo_session_facts)



text \<open>C17: Writing out a buffer, whatever the system answers: it ends, has sent a prefix of the waiting
  bytes on the descriptor and changed nothing else, and the buffer is empty afterwards: bytes the
  system did not take are lost.\<close>

theorem flush_empties_buffer:
  assumes "socks w a = Some s" "sock_ok s" "sk_buffer_size s < 2 ^ 31"
  shows "ends (flush_socket (Ref a) g w) (\<lambda>w'. \<exists>k w1. k \<le> length (queued s) \<and>
    wrote g (take k (queued s)) w w1 \<and>
    w' = (if queued s = [] then w else w1\<lparr>socks := (socks w)(a \<mapsto> flushed s)\<rparr>))"
  by (rule flush_socket_ends [OF assms])

theorem flush_empties_buffer_witness:
  "ends (flush_socket (Ref 0) 5 (one_socket (enqueue ''QUIT'' 4 (init_socket 5 8 zero_addr)) [answer (-1)]))
     (\<lambda>w'. map_option queued (socks w' 0) = Some []) \<and>
   map_sum id (\<lambda>w'. sent w' 5) (flush_socket (Ref 0) 5
     (one_socket (enqueue ''QUIT'' 4 (init_socket 5 8 zero_addr)) [answer (-1)])) = Inr []"
proof
  let ?s = "enqueue ''QUIT'' 4 (init_socket 5 8 zero_addr)"
  have s: "sock_ok ?s" "queued ?s = ''QUIT''" "sk_buffer_size ?s = 8"
    using enqueue_queued [of "init_socket 5 8 zero_addr" 4 "''QUIT''"] by simp_all
  show "ends (flush_socket (Ref 0) 5 (one_socket ?s [answer (-1)])) (\<lambda>w'. map_option queued (socks w' 0) = Some [])"
    by (rule ends_mono [OF flush_empties_buffer [where s = ?s]])
      (use s in \<open>auto simp: one_socket_def boot_def wrote_def\<close>)
  show "map_sum id (\<lambda>w'. sent w' 5) (flush_socket (Ref 0) 5 (one_socket ?s [answer (-1)])) = Inr []"
    by code_simp
qed

text \<open>C36: A PORT command that fills the read buffer to its last byte, so that no NUL follows it, is read
  past the end of the buffer: the handler hands on the pointer behind ``PORT '' with the whole length.\<close>

theorem full_port_command_overreads:
  assumes "port_command_spec buf (length buf)" "NUL \<notin> set buf"
    and "script w = m1 # m2 # rs" "rv (m1 Malloc) \<noteq> 0" "rv (m2 Malloc) \<noteq> 0"
  shows "client_command_received (Ref t) (Some buf) (int (length buf)) w = Inl (UB Out_of_bounds)"
proof -
  have "5 \<le> length buf" using assms(1) by (simp add: port_command_spec_def)
  moreover have "NUL \<notin> set (drop 5 buf)" using assms(2) set_drop_subset by fastforce
  ultimately have over: "strn_read (drop 5 buf) (length buf) = Inl (UB Out_of_bounds)"
    by (intro strn_read_oob) auto
  have "is_port_command (Some buf) (int (length buf)) = Inr True"
    using assms(1) by (simp add: is_port_command_run)
  then show ?thesis
    using assms(3-5) over
    by (simp add: client_command_received_def get_address_from_port_command_def malloc_block_def malloc_def sys_def)
qed

theorem full_port_command_overreads_witness:
  "client_command_received (Ref 4) (Some ''PORT 1,2,3,4,5,6'') 16 (demo [answer 1, answer 1]) = Inl (UB Out_of_bounds)"
proof -
  have "port_command_spec ''PORT 1,2,3,4,5,6'' (length ''PORT 1,2,3,4,5,6'')" by code_simp
  then show ?thesis
    using full_port_command_overreads [of "''PORT 1,2,3,4,5,6''" "demo [answer 1, answer 1]" "answer 1" "answer 1" "[]" 4]
    by (simp add: answer_def)
qed

text \<open>C37: What a client uploads on its data connection is queued in the socket the proxy listens with, not
  in the connection it accepted from the server, which is left as it is.\<close>

theorem upload_queued_on_listening_socket:
  assumes "sessions w t = Some ss" "ss_server ss = Ref v" "servers w v = Some sv"
    and "sv_data_socket sv = Ref d" "socks w d = Some sd" "sock_ok sd" "sv_connection_socket sv = Ref x" "x \<noteq> d"
    and "0 < n" "nat n \<le> length buf" "\<not> port_command_spec buf (nat n)"
    and "nat n + sk_buffer_used sd \<le> sk_buffer_size sd"
  shows "\<exists>w'. client_data_received (Ref t) (Some buf) n w = Inr (CLIENT_SUCCESS, w') \<and>
    map_option queued (socks w' d) = Some (queued sd @ take (nat n) buf) \<and> socks w' x = socks w x"
proof -
  have "session_buffer_write (Ref d) (Some buf) (nat n) w =
      Inr (SESSION_SUCCESS, w\<lparr>socks := (socks w)(d \<mapsto> enqueue buf (nat n) sd)\<rparr>)"
    using assms by (subst session_buffer_write_run) auto
  moreover have "queued (enqueue buf (nat n) sd) = queued sd @ take (nat n) buf"
    using assms by (simp add: enqueue_queued)
  ultimately show ?thesis
    using assms
    by (simp add: client_data_received_def send_packet_to_server_def load_session_def load_server_def is_port_command_run)
qed

theorem upload_queued_on_listening_socket_witness:
  "\<exists>w'. client_data_received (Ref 4) (Some ''file'') 4 (transfer_demo []) = Inr (CLIENT_SUCCESS, w') \<and>
     map_option queued (socks w' 9) = Some ''file'' \<and> map_option queued (socks w' 10) = Some []"
proof -
  let ?w = "transfer_demo []"
  let ?sv = "demo_server\<lparr>sv_data_socket := Ref 9, sv_connection_socket := Ref 10\<rparr>"
  have s: "socks ?w 9 = Some (init_socket 6 64 zero_addr)" "socks ?w 10 = Some (init_socket 7 64 zero_addr)"
    "sessions ?w 4 = Some demo_session" "servers ?w 3 = Some ?sv"
    by (simp_all add: transfer_demo_def demo_def)
  have "\<exists>w'. client_data_received (Ref 4) (Some ''file'') 4 ?w = Inr (CLIENT_SUCCESS, w') \<and>
      map_option queued (socks w' 9) = Some (queued (init_socket 6 64 zero_addr) @ take (nat 4) ''file'') \<and>
      socks w' 10 = socks ?w 10"
    by (rule upload_queued_on_listening_socket [OF s(3) _ s(4) _ s(1)])
      (simp_all add: demo_session_def port_command_spec_def)
  then show ?thesis by (auto simp: s)
qed

end
