(* ===== verification/JobQueue.thy ===== *)
theory JobQueue
  imports Prelude
begin

section \<open>thread.c: semaphores and the job queue\<close>

text \<open>
  The first half of \<open>src/thread.c\<close> and its structures: binary semaphores and the linked queue
  of jobs, on a memory of their own. An operation runs under its mutex from beginning to end, so it
  is one step here; waiting for a semaphore that is not 1 is the outcome \<open>Blocked\<close>. The
  locale \<open>fifo\<close> is what the thread pool relies on; the job queue is shown to provide it, except
  that pulling from an empty queue follows a NULL pointer.
\<close>

subsection \<open>Structures\<close>

text \<open>A job's function is a number. A state value is \<open>None\<close> while nothing has been stored in it.\<close>

record job =
  jb_prev :: ptr
  jb_function :: nat
  jb_arg :: ptr

record binary_sem =
  state_value :: "int option"

record job_queue =
  front_job :: ptr
  rear_job :: ptr
  has_jobs :: ptr
  job_count :: int

record thread =
  th_id :: nat
  th_parent_pool :: ptr

text \<open>\<open>threads\<close>: the array, \<open>None\<close> for NULL; \<open>tp_job_queue\<close> may be NULL after a failure.\<close>

record thread_pool =
  tp_threads :: "ptr list option"
  thread_alive_count :: int
  thread_working_count :: int
  tp_job_queue :: ptr

text \<open>The memory of \<open>thread.c\<close>, the answers of \<open>malloc\<close>, and \<open>threads_keep_alive\<close>.\<close>

record tmem =
  jobs :: "nat \<Rightarrow> job option"
  sems :: "nat \<Rightarrow> binary_sem option"
  queues :: "nat \<Rightarrow> job_queue option"
  ths :: "nat \<Rightarrow> thread option"
  pools :: "nat \<Rightarrow> thread_pool option"
  tbrk :: nat
  mallocs :: "bool list"
  threads_keep_alive :: bool

datatype thread_error_type = THREAD_SUCCESS | THREAD_INVALID | THREAD_INVALID_PARAM | THREAD_ALLOC_FAILED

definition tmalloc :: "tmem \<Rightarrow> (bool \<times> tmem) cres" where
  "tmalloc m = (case mallocs m of [] \<Rightarrow> Inl Blocked | b # bs \<Rightarrow> Inr (b, m\<lparr>mallocs := bs\<rparr>))"

definition tfree :: "(nat \<Rightarrow> 'a option) \<Rightarrow> ptr \<Rightarrow> (nat \<Rightarrow> 'a option) cres" where
  "tfree f p = (case p of Null \<Rightarrow> Inr f | Wild \<Rightarrow> Inl (UB Uninit_read)
     | Ref a \<Rightarrow> if f a = None then Inl (UB Double_free) else Inr (f(a := None)))"

fun raddr :: "ptr \<Rightarrow> nat cres" where
  "raddr Null = Inl (UB Null_deref)"
| "raddr Wild = Inl (UB Uninit_read)"
| "raddr (Ref a) = Inr a"

definition upd_sem :: "ptr \<Rightarrow> (binary_sem \<Rightarrow> binary_sem) \<Rightarrow> tmem \<Rightarrow> tmem cres" where
  "upd_sem p f m = seq (deref (sems m) p) (\<lambda>s. seq (raddr p) (\<lambda>a. Inr (m\<lparr>sems := (sems m)(a \<mapsto> f s)\<rparr>)))"

definition upd_queue :: "ptr \<Rightarrow> (job_queue \<Rightarrow> job_queue) \<Rightarrow> tmem \<Rightarrow> tmem cres" where
  "upd_queue p f m = seq (deref (queues m) p) (\<lambda>s. seq (raddr p) (\<lambda>a. Inr (m\<lparr>queues := (queues m)(a \<mapsto> f s)\<rparr>)))"

definition upd_job :: "ptr \<Rightarrow> (job \<Rightarrow> job) \<Rightarrow> tmem \<Rightarrow> tmem cres" where
  "upd_job p f m = seq (deref (jobs m) p) (\<lambda>s. seq (raddr p) (\<lambda>a. Inr (m\<lparr>jobs := (jobs m)(a \<mapsto> f s)\<rparr>)))"

definition upd_pool :: "ptr \<Rightarrow> (thread_pool \<Rightarrow> thread_pool) \<Rightarrow> tmem \<Rightarrow> tmem cres" where
  "upd_pool p f m = seq (deref (pools m) p) (\<lambda>s. seq (raddr p) (\<lambda>a. Inr (m\<lparr>pools := (pools m)(a \<mapsto> f s)\<rparr>)))"

lemmas tmem_defs = upd_sem_def upd_queue_def upd_job_def upd_pool_def tmalloc_def

subsection \<open>Binary semaphores\<close>

text \<open>\<open>binary_sem_create\<close> checks the initial value it is given and then does not store it.\<close>

definition binary_sem_create :: "int \<Rightarrow> tmem \<Rightarrow> (ptr \<times> tmem) cres" where
  "binary_sem_create initial m =
     (if initial < 0 \<or> initial > 1 then Inr (Null, m) else
     seq (tmalloc m) (\<lambda>(ok, m).
     if \<not> ok then Inr (Null, m) else
     Inr (Ref (tbrk m), m\<lparr>sems := (sems m)(tbrk m \<mapsto> \<lparr>state_value = None\<rparr>), tbrk := Suc (tbrk m)\<rparr>)))"

definition binary_sem_post :: "ptr \<Rightarrow> tmem \<Rightarrow> (thread_error_type \<times> tmem) cres" where
  "binary_sem_post target_binary_sem m =
     seq (nonnull target_binary_sem) (\<lambda>nn. if \<not> nn then Inr (THREAD_INVALID, m) else
     seq (upd_sem target_binary_sem (\<lambda>s. s\<lparr>state_value := Some 1\<rparr>) m) (\<lambda>m. Inr (THREAD_SUCCESS, m)))"

definition binary_sem_post_broadcast :: "ptr \<Rightarrow> tmem \<Rightarrow> (thread_error_type \<times> tmem) cres" where
  "binary_sem_post_broadcast target_binary_sem m =
     seq (nonnull target_binary_sem) (\<lambda>nn. if \<not> nn then Inr (THREAD_INVALID, m) else
     seq (upd_sem target_binary_sem (\<lambda>s. s\<lparr>state_value := Some 1\<rparr>) m) (\<lambda>m. Inr (THREAD_SUCCESS, m)))"

definition binary_sem_wait :: "ptr \<Rightarrow> tmem \<Rightarrow> (thread_error_type \<times> tmem) cres" where
  "binary_sem_wait target_binary_sem m =
     seq (nonnull target_binary_sem) (\<lambda>nn. if \<not> nn then Inr (THREAD_INVALID, m) else
     seq (deref (sems m) target_binary_sem) (\<lambda>s.
     case state_value s of None \<Rightarrow> Inl (UB Uninit_read)
     | Some v \<Rightarrow> if v \<noteq> 1 then Inl Blocked
       else seq (upd_sem target_binary_sem (\<lambda>s. s\<lparr>state_value := Some 0\<rparr>) m) (\<lambda>m. Inr (THREAD_SUCCESS, m))))"

text \<open>The result has the new semaphore for the caller's variable.\<close>

definition binary_sem_reset :: "ptr \<Rightarrow> tmem \<Rightarrow> (thread_error_type \<times> ptr \<times> tmem) cres" where
  "binary_sem_reset target_binary_sem m =
     seq (nonnull target_binary_sem) (\<lambda>nn. if \<not> nn then Inr (THREAD_INVALID, target_binary_sem, m) else
     seq (tfree (sems m) target_binary_sem) (\<lambda>s.
     seq (binary_sem_create 0 (m\<lparr>sems := s\<rparr>)) (\<lambda>(p, m).
     if p = Null then Inr (THREAD_ALLOC_FAILED, Null, m) else Inr (THREAD_SUCCESS, p, m))))"

subsection \<open>The job queue\<close>

definition job_queue_create :: "tmem \<Rightarrow> (ptr \<times> tmem) cres" where
  "job_queue_create m =
     seq (tmalloc m) (\<lambda>(ok, m).
     if \<not> ok then Inr (Null, m) else
     (let q = tbrk m; m = m\<lparr>tbrk := Suc (tbrk m)\<rparr> in
     seq (binary_sem_create 0 m) (\<lambda>(p, m).
     if p = Null then Inr (Null, m) else
     Inr (Ref q, m\<lparr>queues := (queues m)(q \<mapsto> \<lparr>front_job = Null, rear_job = Null, has_jobs = p, job_count = 0\<rparr>)\<rparr>))))"

definition job_queue_push :: "ptr \<Rightarrow> ptr \<Rightarrow> tmem \<Rightarrow> (thread_error_type \<times> tmem) cres" where
  "job_queue_push target_job_queue new_job m =
     seq (nonnull new_job) (\<lambda>nn. if \<not> nn then Inr (THREAD_INVALID, m) else
     seq (deref (queues m) target_job_queue) (\<lambda>q.
     seq (upd_job new_job (\<lambda>j. j\<lparr>jb_prev := Null\<rparr>) m) (\<lambda>m.
     seq (if job_count q = 0
          then upd_queue target_job_queue (\<lambda>q. q\<lparr>front_job := new_job, rear_job := new_job\<rparr>) m
          else seq (upd_job (rear_job q) (\<lambda>j. j\<lparr>jb_prev := new_job\<rparr>) m) (\<lambda>m.
               upd_queue target_job_queue (\<lambda>q. q\<lparr>rear_job := new_job\<rparr>) m)) (\<lambda>m.
     seq (upd_queue target_job_queue (\<lambda>q. q\<lparr>job_count := job_count q + 1\<rparr>) m) (\<lambda>m.
     seq (binary_sem_post (has_jobs q) m) (\<lambda>(_, m). Inr (THREAD_SUCCESS, m)))))))"

definition job_queue_pull :: "ptr \<Rightarrow> tmem \<Rightarrow> (ptr \<times> tmem) cres" where
  "job_queue_pull current_job_queue m =
     seq (nonnull current_job_queue) (\<lambda>nn. if \<not> nn then Inr (Null, m) else
     seq (deref (queues m) current_job_queue) (\<lambda>q.
     let current_job = front_job q in
     seq (if job_count q = 1
          then upd_queue current_job_queue (\<lambda>q. q\<lparr>front_job := Null, rear_job := Null, job_count := 0\<rparr>) m
          else seq (deref (jobs m) current_job) (\<lambda>j.
               seq (upd_queue current_job_queue (\<lambda>q. q\<lparr>front_job := jb_prev j, job_count := job_count q - 1\<rparr>) m) (\<lambda>m.
               seq (binary_sem_post (has_jobs q) m) (\<lambda>(_, m). Inr m)))) (\<lambda>m.
     Inr (current_job, m))))"

text \<open>The loop of \<open>job_queue_clear\<close>; the number of jobs bounds the rounds when it is not negative.\<close>

fun clear_loop :: "nat \<Rightarrow> ptr \<Rightarrow> tmem \<Rightarrow> tmem cres" where
  "clear_loop 0 q m = Inl Out_of_fuel"
| "clear_loop (Suc fuel) q m =
     seq (deref (queues m) q) (\<lambda>s.
     if job_count s = 0 then Inr m else
     seq (job_queue_pull q m) (\<lambda>(current_job, m).
     seq (tfree (jobs m) current_job) (\<lambda>j. clear_loop fuel q (m\<lparr>jobs := j\<rparr>))))"

definition job_queue_clear :: "ptr \<Rightarrow> tmem \<Rightarrow> tmem cres" where
  "job_queue_clear q m =
     seq (nonnull q) (\<lambda>nn. if \<not> nn then Inr m else
     seq (deref (queues m) q) (\<lambda>s.
     seq (clear_loop (Suc (nat (job_count s))) q m) (\<lambda>m.
     seq (upd_queue q (\<lambda>s. s\<lparr>front_job := Null, rear_job := Null\<rparr>) m) (\<lambda>m.
     seq (deref (queues m) q) (\<lambda>s.
     seq (binary_sem_reset (has_jobs s) m) (\<lambda>(_, p, m).
     upd_queue q (\<lambda>s. s\<lparr>has_jobs := p, job_count := 0\<rparr>) m))))))"

definition job_queue_free :: "ptr \<Rightarrow> tmem \<Rightarrow> tmem cres" where
  "job_queue_free q m =
     seq (job_queue_clear q m) (\<lambda>m.
     seq (deref (queues m) q) (\<lambda>s.
     seq (tfree (sems m) (has_jobs s)) (\<lambda>f.
     seq (tfree (queues m) q) (\<lambda>g. Inr (m\<lparr>sems := f, queues := g\<rparr>)))))"

subsection \<open>The queue as a list\<close>

text \<open>\<open>queue_ok q m js\<close>: the queue at \<open>q\<close> holds the jobs \<open>js\<close>, the oldest first; every job's \<open>prev\<close>
  is the next one to be pulled.\<close>

fun chain :: "(nat \<Rightarrow> job option) \<Rightarrow> nat list \<Rightarrow> bool" where
  "chain f (a # b # l) = ((\<exists>x. f a = Some x \<and> jb_prev x = Ref b) \<and> chain f (b # l))"
| "chain f [a] = (\<exists>x. f a = Some x \<and> jb_prev x = Null)"
| "chain f [] = True"

definition queue_ok :: "nat \<Rightarrow> tmem \<Rightarrow> nat list \<Rightarrow> bool" where
  "queue_ok q m js \<longleftrightarrow> (\<exists>Q s. queues m q = Some Q \<and> has_jobs Q = Ref s \<and> sems m s \<noteq> None \<and>
     job_count Q = int (length js) \<and> distinct js \<and> chain (jobs m) js \<and>
     (if js = [] then front_job Q = Null \<and> rear_job Q = Null
      else front_job Q = Ref (hd js) \<and> rear_job Q = Ref (last js)))"

text \<open>The value of the queue's semaphore.\<close>

definition queue_sem :: "nat \<Rightarrow> tmem \<Rightarrow> int option" where
  "queue_sem q m = (case queues m q of None \<Rightarrow> None | Some Q \<Rightarrow>
     (case has_jobs Q of Ref s \<Rightarrow> (case sems m s of None \<Rightarrow> None | Some x \<Rightarrow> state_value x) | _ \<Rightarrow> None))"

lemma chain_dom: "chain f js \<Longrightarrow> a \<in> set js \<Longrightarrow> f a \<noteq> None"
  by (induction f js rule: chain.induct) auto

lemma chain_frame: "chain f js \<Longrightarrow> \<forall>a \<in> set js. g a = f a \<Longrightarrow> chain g js"
  by (induction f js rule: chain.induct) auto

lemma chain_snoc:
  assumes "chain f (js @ [l])" "j \<notin> set (js @ [l])" "distinct (js @ [l])" "f l = Some x" "f j = Some y"
  shows "chain (f(j \<mapsto> y\<lparr>jb_prev := Null\<rparr>, l \<mapsto> x\<lparr>jb_prev := Ref j\<rparr>)) (js @ [l, j])"
  using assms
proof (induction js)
  case Nil
  then show ?case by auto
next
  case (Cons a js)
  then show ?case by (cases js) auto
qed

lemma push_empty:
  assumes "queue_ok q m []" "jobs m j = Some x"
  shows "\<exists>m'. job_queue_push (Ref q) (Ref j) m = Inr (THREAD_SUCCESS, m') \<and> queue_ok q m' [j] \<and>
    queue_sem q m' = Some 1 \<and> dom (jobs m') = dom (jobs m) \<and> pools m' = pools m \<and>
    (\<forall>i. jb_function (the (jobs m' i)) = jb_function (the (jobs m i))) \<and>
    threads_keep_alive m' = threads_keep_alive m"
  using assms
  by (auto simp: job_queue_push_def queue_ok_def tmem_defs binary_sem_post_def queue_sem_def)

lemma push_more:
  assumes "queue_ok q m js" "js \<noteq> []" "jobs m j = Some x" "j \<notin> set js"
  shows "\<exists>m'. job_queue_push (Ref q) (Ref j) m = Inr (THREAD_SUCCESS, m') \<and> queue_ok q m' (js @ [j]) \<and>
    queue_sem q m' = Some 1 \<and> dom (jobs m') = dom (jobs m) \<and> pools m' = pools m \<and>
    (\<forall>i. jb_function (the (jobs m' i)) = jb_function (the (jobs m i))) \<and>
    threads_keep_alive m' = threads_keep_alive m"
proof -
  obtain Q s y where Q: "queues m q = Some Q" "has_jobs Q = Ref s" "sems m s = Some y"
    "job_count Q = int (length js)" "distinct js" "chain (jobs m) js" "front_job Q = Ref (hd js)" "rear_job Q = Ref (last js)"
    using assms(1,2) by (auto simp: queue_ok_def)
  obtain i l where js: "js = i @ [l]" using assms(2) by (cases js rule: rev_cases) auto
  have l: "l \<in> set js" by (simp add: js)
  then obtain z where z: "jobs m l = Some z" using chain_dom [OF Q(6)] by blast
  have lj: "l \<noteq> j" using l assms(4) by blast
  have c: "chain ((jobs m)(j \<mapsto> x\<lparr>jb_prev := Null\<rparr>, l \<mapsto> z\<lparr>jb_prev := Ref j\<rparr>)) (i @ [l, j])"
    by (rule chain_snoc) (use Q js assms z in auto)
  have h: "hd (i @ [l, j]) = hd (i @ [l])" by (cases i) auto
  show ?thesis
    using Q assms(3,4) z lj c h
    by (auto simp: js job_queue_push_def queue_ok_def tmem_defs binary_sem_post_def queue_sem_def dom_def)
qed

lemma job_queue_push_ok:
  assumes "queue_ok q m js" "j \<in> dom (jobs m)" "j \<notin> set js"
  shows "\<exists>m'. job_queue_push (Ref q) (Ref j) m = Inr (THREAD_SUCCESS, m') \<and> queue_ok q m' (js @ [j]) \<and>
    queue_sem q m' = Some 1 \<and> dom (jobs m') = dom (jobs m) \<and> pools m' = pools m \<and>
    (\<forall>i. jb_function (the (jobs m' i)) = jb_function (the (jobs m i))) \<and>
    threads_keep_alive m' = threads_keep_alive m"
  using push_empty [of q m j] push_more [of q m js j] assms by (cases "js = []") auto

lemma job_queue_pull_ok:
  assumes "queue_ok q m (j # js)"
  shows "\<exists>m'. job_queue_pull (Ref q) m = Inr (Ref j, m') \<and> queue_ok q m' js \<and>
    queue_sem q m' = (if js = [] then queue_sem q m else Some 1) \<and> jobs m' = jobs m \<and> pools m' = pools m \<and>
    threads_keep_alive m' = threads_keep_alive m"
proof (cases js)
  case Nil
  with assms show ?thesis
    by (auto simp: queue_ok_def job_queue_pull_def tmem_defs queue_sem_def)
next
  case (Cons k l)
  with assms show ?thesis
    by (auto simp: queue_ok_def job_queue_pull_def tmem_defs binary_sem_post_def queue_sem_def)
qed

lemma job_queue_pull_empty:
  "queue_ok q m [] \<Longrightarrow> job_queue_pull (Ref q) m = Inl (UB Null_deref)"
  by (auto simp: queue_ok_def job_queue_pull_def)

subsection \<open>What the pool relies on\<close>

fun pull_n :: "('m \<Rightarrow> (ptr \<times> 'm) cres) \<Rightarrow> nat \<Rightarrow> 'm \<Rightarrow> (ptr list \<times> 'm) cres" where
  "pull_n pull 0 m = Inr ([], m)"
| "pull_n pull (Suc n) m = seq (pull m) (\<lambda>(p, m). seq (pull_n pull n m) (\<lambda>(ps, m). Inr (p # ps, m)))"

locale fifo =
  fixes repr :: "'m \<Rightarrow> nat list \<Rightarrow> bool"
    and live :: "'m \<Rightarrow> nat set"
    and push :: "nat \<Rightarrow> 'm \<Rightarrow> 'm cres"
    and pull :: "'m \<Rightarrow> (ptr \<times> 'm) cres"
  assumes push_ok: "repr m js \<Longrightarrow> j \<in> live m \<Longrightarrow> j \<notin> set js \<Longrightarrow>
      \<exists>m'. push j m = Inr m' \<and> repr m' (js @ [j]) \<and> live m' = live m"
    and pull_ok: "repr m (j # js) \<Longrightarrow> \<exists>m'. pull m = Inr (Ref j, m') \<and> repr m' js \<and> live m' = live m"
begin

lemma push_all:
  "repr m js \<Longrightarrow> set ks \<subseteq> live m \<Longrightarrow> distinct (js @ ks) \<Longrightarrow>
   \<exists>m'. foldc push ks m = Inr m' \<and> repr m' (js @ ks) \<and> live m' = live m"
proof (induction ks arbitrary: m js)
  case Nil
  then show ?case by simp
next
  case (Cons k ks)
  then obtain m1 where m1: "push k m = Inr m1" "repr m1 (js @ [k])" "live m1 = live m"
    using push_ok [of m js k] by auto
  with Cons.IH [of m1 "js @ [k]"] Cons.prems show ?case by auto
qed

lemma pull_all: "repr m (js @ ks) \<Longrightarrow> \<exists>m'. pull_n pull (length js) m = Inr (map Ref js, m') \<and> repr m' ks \<and> live m' = live m"
proof (induction js arbitrary: m)
  case Nil
  then show ?case by simp
next
  case (Cons j js)
  then obtain m1 where m1: "pull m = Inr (Ref j, m1)" "repr m1 (js @ ks)" "live m1 = live m"
    using pull_ok [of m j "js @ ks"] by auto
  with Cons.IH [of m1] show ?case by auto
qed

lemma first_in_first_out:
  assumes "repr m []" "set ks \<subseteq> live m" "distinct ks"
  shows "\<exists>m'. seq (foldc push ks m) (pull_n pull (length ks)) = Inr (map Ref ks, m') \<and> repr m' []"
proof -
  obtain m1 where "foldc push ks m = Inr m1" "repr m1 (ks @ [])"
    using push_all [of m "[]" ks] assms by auto
  then show ?thesis using pull_all [of m1 ks "[]"] by auto
qed

end

definition push_job :: "nat \<Rightarrow> nat \<Rightarrow> tmem \<Rightarrow> tmem cres" where
  "push_job q j m = seq (job_queue_push (Ref q) (Ref j) m) (\<lambda>(_, m). Inr m)"

interpretation jq: fifo "queue_ok q" "\<lambda>m. dom (jobs m)" "push_job q" "job_queue_pull (Ref q)" for q
proof unfold_locales
  fix m js j
  assume "queue_ok q m js" "j \<in> dom (jobs m)" "j \<notin> set js"
  from job_queue_push_ok [OF this]
  show "\<exists>m'. push_job q j m = Inr m' \<and> queue_ok q m' (js @ [j]) \<and> dom (jobs m') = dom (jobs m)"
    by (auto simp: push_job_def)
next
  fix m j js
  assume "queue_ok q m (j # js)"
  from job_queue_pull_ok [OF this]
  show "\<exists>m'. job_queue_pull (Ref q) m = Inr (Ref j, m') \<and> queue_ok q m' js \<and> dom (jobs m') = dom (jobs m)"
    by auto
qed

subsection \<open>Clearing and freeing\<close>

lemma queue_ok_deref:
  assumes "queue_ok q m js"
  obtains Q s x where "queues m q = Some Q" "has_jobs Q = Ref s" "sems m s = Some x" "job_count Q = int (length js)"
  using assms by (auto simp: queue_ok_def)

lemma queue_ok_free_job:
  assumes "queue_ok q m js" "j \<notin> set js"
  shows "queue_ok q (m\<lparr>jobs := (jobs m)(j := None)\<rparr>) js"
proof -
  obtain Q s where Q: "queues m q = Some Q" "has_jobs Q = Ref s" "sems m s \<noteq> None"
    "job_count Q = int (length js)" "distinct js" "chain (jobs m) js"
    "if js = [] then front_job Q = Null \<and> rear_job Q = Null else front_job Q = Ref (hd js) \<and> rear_job Q = Ref (last js)"
    using assms(1) unfolding queue_ok_def by blast
  have "chain ((jobs m)(j := None)) js" by (rule chain_frame [OF Q(6)]) (use assms(2) in auto)
  with Q show ?thesis unfolding queue_ok_def by (intro exI [of _ Q] exI [of _ s]) auto
qed

lemma clear_loop_ok:
  assumes "queue_ok q m js" "length js < fuel"
  shows "\<exists>m'. clear_loop fuel (Ref q) m = Inr m' \<and> queue_ok q m' [] \<and>
    jobs m' = (\<lambda>x. if x \<in> set js then None else jobs m x) \<and> mallocs m' = mallocs m"
  using assms
proof (induction js arbitrary: m fuel)
  case Nil
  then obtain n where "fuel = Suc n" by (cases fuel) auto
  moreover obtain Q where "queues m q = Some Q" "job_count Q = 0"
    using Nil(1) by (auto simp: queue_ok_def)
  ultimately show ?case using Nil(1) by auto
next
  case (Cons j js)
  then obtain n where n: "fuel = Suc n" "length js < n" by (cases fuel) auto
  obtain Q where Q: "queues m q = Some Q" "job_count Q \<noteq> 0"
    using Cons.prems(1) by (auto simp: queue_ok_def)
  obtain m1 where m1: "job_queue_pull (Ref q) m = Inr (Ref j, m1)" "queue_ok q m1 js" "jobs m1 = jobs m"
    using job_queue_pull_ok [OF Cons.prems(1)] by blast
  have mal: "mallocs m1 = mallocs m"
    using m1(1) Q by (auto simp: job_queue_pull_def tmem_defs binary_sem_post_def seq_Inr_iff deref_Inr_iff Let_def
        split: if_splits)
  have j: "jobs m j \<noteq> None" "j \<notin> set js"
    using Cons.prems(1) chain_dom [of "jobs m" "j # js" j] by (auto simp: queue_ok_def)
  let ?m = "m1\<lparr>jobs := (jobs m1)(j := None)\<rparr>"
  obtain m' where m': "clear_loop n (Ref q) ?m = Inr m'" "queue_ok q m' []"
    "jobs m' = (\<lambda>x. if x \<in> set js then None else jobs ?m x)" "mallocs m' = mallocs ?m"
    using Cons.IH [OF queue_ok_free_job [OF m1(2) j(2)] n(2)] by blast
  then have "clear_loop fuel (Ref q) m = Inr m'"
    using Q m1 j by (simp add: n(1) tfree_def)
  then show ?case using m' mal by (auto simp: m1(3))
qed

subsection \<open>Properties\<close>

text \<open>C30: The job queue is first in, first out: pushing any jobs on an empty queue and pulling as many
  gives them back in the order they were pushed, and leaves the queue empty.\<close>

theorem job_queue_fifo:
  assumes "queue_ok q m []" "set ks \<subseteq> dom (jobs m)" "distinct ks"
  shows "\<exists>m'. seq (foldc (push_job q) ks m) (pull_n (job_queue_pull (Ref q)) (length ks)) = Inr (map Ref ks, m') \<and>
    queue_ok q m' []"
  by (rule jq.first_in_first_out [OF assms])

definition demo_tmem :: tmem where
  "demo_tmem = \<lparr>jobs = [5 \<mapsto> \<lparr>jb_prev = Wild, jb_function = 0, jb_arg = Null\<rparr>, 6 \<mapsto> \<lparr>jb_prev = Wild, jb_function = 1, jb_arg = Null\<rparr>],
     sems = [0 \<mapsto> \<lparr>state_value = Some 0\<rparr>],
     queues = [1 \<mapsto> \<lparr>front_job = Null, rear_job = Null, has_jobs = Ref 0, job_count = 0\<rparr>],
     ths = Map.empty, pools = Map.empty, tbrk = 7, mallocs = [], threads_keep_alive = True\<rparr>"

lemma demo_queue: "queue_ok 1 demo_tmem []"
  by (simp add: queue_ok_def demo_tmem_def)

theorem job_queue_fifo_witness:
  "\<exists>m'. seq (foldc (push_job 1) [6, 5] demo_tmem) (pull_n (job_queue_pull (Ref 1)) 2) = Inr ([Ref 6, Ref 5], m')"
  using job_queue_fifo [OF demo_queue, of "[6, 5]"] by (auto simp: demo_tmem_def numeral_2_eq_2)

text \<open>Clearing a queue frees every job in it, exactly once, and leaves it empty with a new semaphore,
  when the memory for that is granted; the loop needs no more rounds than the queue has jobs.\<close>

theorem job_queue_clear_frees_jobs:
  assumes "queue_ok q m js" "mallocs m = True # bs"
  shows "\<exists>m'. job_queue_clear (Ref q) m = Inr m' \<and> queue_ok q m' [] \<and>
    jobs m' = (\<lambda>x. if x \<in> set js then None else jobs m x)"
proof -
  obtain m1 where m1: "clear_loop (Suc (length js)) (Ref q) m = Inr m1" "queue_ok q m1 []"
    "jobs m1 = (\<lambda>x. if x \<in> set js then None else jobs m x)" "mallocs m1 = mallocs m"
    using clear_loop_ok [OF assms(1), of "Suc (length js)"] by auto
  obtain Q where Q: "queues m q = Some Q" "job_count Q = int (length js)" using assms(1) by (auto simp: queue_ok_def)
  obtain P s x where P: "queues m1 q = Some P" "has_jobs P = Ref s" "sems m1 s = Some x"
    using m1(2) by (auto simp: queue_ok_def)
  show ?thesis
    using m1(1,3,4) Q P assms(2)
    by (simp add: job_queue_clear_def tmem_defs binary_sem_reset_def binary_sem_create_def tfree_def queue_ok_def
        del: clear_loop.simps)
qed

theorem job_queue_clear_frees_jobs_witness:
  "\<exists>m1 m'. push_job 1 6 (demo_tmem\<lparr>mallocs := [True]\<rparr>) = Inr m1 \<and> job_queue_clear (Ref 1) m1 = Inr m' \<and>
     queue_ok 1 m' [] \<and> jobs m' 6 = None"
proof -
  let ?m = "demo_tmem\<lparr>mallocs := [True]\<rparr>"
  have q: "queue_ok 1 ?m []" "6 \<in> dom (jobs ?m)" by (simp_all add: queue_ok_def demo_tmem_def)
  obtain m1 where m1: "push_job 1 6 ?m = Inr m1" "queue_ok 1 m1 [6]" using jq.push_ok [OF q] by auto
  have "mallocs m1 = True # []"
    using m1(1) by (auto simp: push_job_def job_queue_push_def tmem_defs binary_sem_post_def demo_tmem_def)
  from job_queue_clear_frees_jobs [OF m1(2) this] m1(1) show ?thesis by auto
qed

text \<open>\<open>job_queue_pull\<close> has no case for the empty queue: it follows the NULL front pointer.\<close>

theorem job_queue_pull_empty_crashes:
  assumes "queue_ok q m []"
  shows "job_queue_pull (Ref q) m = Inl (UB Null_deref)"
  by (rule job_queue_pull_empty [OF assms])

theorem job_queue_pull_empty_crashes_witness:
  "job_queue_pull (Ref 1) demo_tmem = Inl (UB Null_deref)"
  by (rule job_queue_pull_empty_crashes [OF demo_queue])

text \<open>The state of a new semaphore is not initialised, whatever initial value was asked for: waiting
  for it before anybody has posted reads an indeterminate value.\<close>

theorem binary_sem_create_uninitialised:
  assumes "mallocs m = True # bs" "initial \<in> {0, 1}"
  shows "\<exists>p m'. binary_sem_create initial m = Inr (p, m') \<and> p \<noteq> Null \<and>
    binary_sem_wait p m' = Inl (UB Uninit_read)"
  using assms by (auto simp: binary_sem_create_def tmem_defs binary_sem_wait_def)

theorem binary_sem_create_uninitialised_witness:
  "\<exists>p m'. binary_sem_create 1 (demo_tmem\<lparr>mallocs := [True]\<rparr>) = Inr (p, m') \<and>
    binary_sem_wait p m' = Inl (UB Uninit_read)"
  using binary_sem_create_uninitialised [of "demo_tmem\<lparr>mallocs := [True]\<rparr>" "[]" 1] by auto

end
