(* ===== verification/Pool.thy ===== *)
theory Pool
  imports JobQueue "HOL-Library.Multiset"
begin

section \<open>thread.c: the thread pool\<close>

text \<open>
  The second half of \<open>src/thread.c\<close>. Creating and freeing the pool and adding work are functions on
  the memory of \<open>JobQueue\<close>; a worker's \<open>thread_do\<close> is a step function over its program
  counter, with one step per critical section, and the pool as a whole is a step relation in which
  any worker moves next. The lemmas give the invariants of that relation: the working
  count counts the workers between their two updates of it, and no job is lost or run twice.
\<close>

subsection \<open>Creating and freeing\<close>

definition thread_create :: "ptr \<Rightarrow> nat \<Rightarrow> tmem \<Rightarrow> (ptr \<times> tmem) cres" where
  "thread_create parent_thread_pool thread_id m =
     seq (nonnull parent_thread_pool) (\<lambda>nn. if \<not> nn then Inr (Null, m) else
     seq (tmalloc m) (\<lambda>(ok, m).
     if \<not> ok then Inr (Null, m) else
     seq (deref (pools m) parent_thread_pool) (\<lambda>P.
     case tp_threads P of None \<Rightarrow> Inl (UB Null_deref) | Some ts \<Rightarrow>
     if thread_id \<ge> length ts then Inl (UB Out_of_bounds) else
     (let t = tbrk m;
          m = m\<lparr>tbrk := Suc t, ths := (ths m)(t \<mapsto> \<lparr>th_id = thread_id, th_parent_pool = parent_thread_pool\<rparr>)\<rparr> in
      seq (upd_pool parent_thread_pool (\<lambda>P. P\<lparr>tp_threads := Some (ts[thread_id := Ref t])\<rparr>) m) (\<lambda>m.
      Inr (Ref t, m))))))"

text \<open>\<open>for (i = 0; i < thread_count; ++i)\<close>: the loop that frees the thread structures.\<close>

fun free_threads :: "ptr list \<Rightarrow> nat \<Rightarrow> tmem \<Rightarrow> tmem cres" where
  "free_threads ts 0 m = Inr m"
| "free_threads [] (Suc n) m = Inl (UB Out_of_bounds)"
| "free_threads (t # ts) (Suc n) m =
     seq (tfree (ths m) t) (\<lambda>f. free_threads ts n (m\<lparr>ths := f\<rparr>))"

text \<open>What \<open>thread_pool_free\<close> does when no worker is alive any more; \<open>thread_count\<close> is the number that
  was alive when it began.\<close>

definition thread_pool_free_rest :: "ptr \<Rightarrow> nat \<Rightarrow> tmem \<Rightarrow> (thread_error_type \<times> tmem) cres" where
  "thread_pool_free_rest target_thread_pool thread_count m =
     seq (deref (pools m) target_thread_pool) (\<lambda>P.
     seq (job_queue_free (tp_job_queue P) m) (\<lambda>m.
     seq (upd_pool target_thread_pool (\<lambda>P. P\<lparr>tp_job_queue := Null\<rparr>) m) (\<lambda>m.
     seq (case tp_threads P of None \<Rightarrow> Inr m | Some ts \<Rightarrow> free_threads ts thread_count m) (\<lambda>m.
     seq (tfree (pools m) target_thread_pool) (\<lambda>f.
     Inr (THREAD_SUCCESS, m\<lparr>pools := f\<rparr>))))))"

text \<open>As long as workers are alive the call broadcasts and waits for them.\<close>

definition thread_pool_free :: "ptr \<Rightarrow> tmem \<Rightarrow> (thread_error_type \<times> tmem) cres" where
  "thread_pool_free target_thread_pool m =
     seq (nonnull target_thread_pool) (\<lambda>nn. if \<not> nn then Inr (THREAD_INVALID, m) else
     (let m = m\<lparr>threads_keep_alive := False\<rparr> in
     seq (deref (pools m) target_thread_pool) (\<lambda>P.
     if thread_alive_count P > 0
     then seq (deref (queues m) (tp_job_queue P)) (\<lambda>Q.
          seq (binary_sem_post_broadcast (has_jobs Q) m) (\<lambda>_. Inl Blocked))
     else thread_pool_free_rest target_thread_pool (nat (thread_alive_count P)) m)))"

fun create_threads :: "nat \<Rightarrow> nat \<Rightarrow> ptr \<Rightarrow> tmem \<Rightarrow> tmem cres" where
  "create_threads i 0 p m = Inr m"
| "create_threads i (Suc n) p m = seq (thread_create p i m) (\<lambda>(_, m). create_threads (Suc i) n p m)"

definition thread_pool_create :: "int \<Rightarrow> tmem \<Rightarrow> (ptr \<times> tmem) cres" where
  "thread_pool_create max_threads m =
     (let max_threads = (if max_threads < 0 then 0 else max_threads) in
     seq (tmalloc m) (\<lambda>(ok, m).
     if \<not> ok then Inr (Null, m) else
     (let p = tbrk m;
          m = m\<lparr>tbrk := Suc p, pools := (pools m)(p \<mapsto> \<lparr>tp_threads = None, thread_alive_count = 0,
                 thread_working_count = 0, tp_job_queue = Null\<rparr>)\<rparr> in
     seq (job_queue_create m) (\<lambda>(q, m).
     seq (upd_pool (Ref p) (\<lambda>P. P\<lparr>tp_job_queue := q\<rparr>) m) (\<lambda>m.
     if q = Null
     then seq (thread_pool_free (Ref p) m) (\<lambda>(_, m). Inr (Null, m)) else
     seq (tmalloc m) (\<lambda>(ok, m).
     if \<not> ok
     then seq (thread_pool_free (Ref p) m) (\<lambda>(_, m). Inr (Null, m)) else
     seq (upd_pool (Ref p) (\<lambda>P. P\<lparr>tp_threads := Some (replicate (nat max_threads) Null)\<rparr>) m) (\<lambda>m.
     seq (create_threads 0 (nat max_threads) (Ref p) m) (\<lambda>m.
     Inr (Ref p, m)))))))))"

definition thread_pool_add_work :: "ptr \<Rightarrow> nat \<Rightarrow> ptr \<Rightarrow> tmem \<Rightarrow> (thread_error_type \<times> tmem) cres" where
  "thread_pool_add_work target_thread_pool function_ptr arg_ptr m =
     seq (nonnull target_thread_pool) (\<lambda>nn. if \<not> nn then Inr (THREAD_INVALID, m) else
     seq (tmalloc m) (\<lambda>(ok, m).
     if \<not> ok then Inr (THREAD_ALLOC_FAILED, m) else
     (let j = tbrk m;
          m = m\<lparr>tbrk := Suc j, jobs := (jobs m)(j \<mapsto> \<lparr>jb_prev = Wild, jb_function = function_ptr, jb_arg = arg_ptr\<rparr>)\<rparr> in
     seq (deref (pools m) target_thread_pool) (\<lambda>P.
     seq (job_queue_push (tp_job_queue P) (Ref j) m) (\<lambda>(_, m).
     Inr (THREAD_SUCCESS, m))))))"

text \<open>The call returns when its loop finds no job in the queue and no worker counted.\<close>

definition thread_pool_wait :: "ptr \<Rightarrow> tmem \<Rightarrow> (thread_error_type \<times> tmem) cres" where
  "thread_pool_wait target_thread_pool m =
     seq (nonnull target_thread_pool) (\<lambda>nn. if \<not> nn then Inr (THREAD_INVALID, m) else
     seq (deref (pools m) target_thread_pool) (\<lambda>P.
     seq (deref (queues m) (tp_job_queue P)) (\<lambda>Q.
     if job_count Q > 0 \<or> thread_working_count P > 0 then Inl Blocked
     else Inr (THREAD_SUCCESS, m))))"

subsection \<open>A worker\<close>

text \<open>Where a worker stands in \<open>thread_do\<close>: before which of its critical sections.\<close>

datatype pc =
    Starting | Looping | Waiting | Woken | Counting | Pulling | Pulled ptr | Ran ptr | Uncounting
  | Leaving | Gone

fun worker_step :: "nat \<Rightarrow> pc \<Rightarrow> tmem \<Rightarrow> (pc \<times> tmem) cres" where
  "worker_step p Starting m =
     seq (upd_pool (Ref p) (\<lambda>P. P\<lparr>thread_alive_count := thread_alive_count P + 1\<rparr>) m) (\<lambda>m. Inr (Looping, m))"
| "worker_step p Looping m = Inr (if threads_keep_alive m then Waiting else Leaving, m)"
| "worker_step p Waiting m =
     seq (deref (pools m) (Ref p)) (\<lambda>P.
     seq (deref (queues m) (tp_job_queue P)) (\<lambda>Q.
     seq (binary_sem_wait (has_jobs Q) m) (\<lambda>(_, m). Inr (Woken, m))))"
| "worker_step p Woken m = Inr (if \<not> threads_keep_alive m then Leaving else Counting, m)"
| "worker_step p Counting m =
     seq (upd_pool (Ref p) (\<lambda>P. P\<lparr>thread_working_count := thread_working_count P + 1\<rparr>) m) (\<lambda>m. Inr (Pulling, m))"
| "worker_step p Pulling m =
     seq (deref (pools m) (Ref p)) (\<lambda>P.
     seq (job_queue_pull (tp_job_queue P) m) (\<lambda>(pulled_job, m). Inr (Pulled pulled_job, m)))"
| "worker_step p (Pulled pulled_job) m =
     seq (nonnull pulled_job) (\<lambda>nn. if \<not> nn then Inr (Uncounting, m) else
     seq (deref (jobs m) pulled_job) (\<lambda>_. Inr (Ran pulled_job, m)))"
| "worker_step p (Ran pulled_job) m =
     seq (tfree (jobs m) pulled_job) (\<lambda>f. Inr (Uncounting, m\<lparr>jobs := f\<rparr>))"
| "worker_step p Uncounting m =
     seq (upd_pool (Ref p) (\<lambda>P. P\<lparr>thread_working_count := thread_working_count P - 1\<rparr>) m) (\<lambda>m. Inr (Looping, m))"
| "worker_step p Leaving m =
     seq (upd_pool (Ref p) (\<lambda>P. P\<lparr>thread_alive_count := thread_alive_count P - 1\<rparr>) m) (\<lambda>m. Inr (Gone, m))"
| "worker_step p Gone m = Inl Blocked"

subsection \<open>The pool as a state machine\<close>

text \<open>
  \<open>pcs\<close>: the program counters of the workers; \<open>ran\<close>: the jobs whose function was called, in
  order; \<open>added\<close>: the jobs added; \<open>crashed\<close>: the undefined behaviour a worker ran into.
\<close>

record pstate =
  tm :: tmem
  pcs :: "pc list"
  ran :: "nat list"
  added :: "nat list"
  crashed :: "ub option"

datatype action = Work nat | Add nat ptr | Stop | Broadcast

text \<open>The job a step of a worker calls.\<close>

definition called :: "pc \<Rightarrow> nat list" where
  "called c = (case c of Pulled (Ref j) \<Rightarrow> [j] | _ \<Rightarrow> [])"

text \<open>One action, \<open>None\<close> when it is not possible. \<open>Stop\<close> and \<open>Broadcast\<close> are what \<open>thread_pool_free\<close>
  does to the workers.\<close>

definition pool_act :: "nat \<Rightarrow> action \<Rightarrow> pstate \<Rightarrow> pstate option" where
  "pool_act p a s = (if crashed s \<noteq> None then None else
     (case a of
        Work i \<Rightarrow>
          if i \<ge> length (pcs s) then None else
          (case worker_step p (pcs s ! i) (tm s) of
             Inr (c, m) \<Rightarrow> Some (s\<lparr>tm := m, pcs := (pcs s)[i := c], ran := ran s @ called (pcs s ! i)\<rparr>)
           | Inl (UB u) \<Rightarrow> Some (s\<lparr>crashed := Some u\<rparr>)
           | Inl _ \<Rightarrow> None)
      | Add f x \<Rightarrow>
          (case thread_pool_add_work (Ref p) f x (tm s) of
             Inr (THREAD_SUCCESS, m) \<Rightarrow> Some (s\<lparr>tm := m, added := added s @ [tbrk (tm s)]\<rparr>)
           | Inr (_, m) \<Rightarrow> Some (s\<lparr>tm := m\<rparr>)
           | Inl (UB u) \<Rightarrow> Some (s\<lparr>crashed := Some u\<rparr>)
           | Inl _ \<Rightarrow> None)
      | Stop \<Rightarrow> Some (s\<lparr>tm := (tm s)\<lparr>threads_keep_alive := False\<rparr>\<rparr>)
      | Broadcast \<Rightarrow>
          if threads_keep_alive (tm s) then None else
          (case pools (tm s) p of None \<Rightarrow> None | Some P \<Rightarrow>
          (case deref (queues (tm s)) (tp_job_queue P) of Inl _ \<Rightarrow> None | Inr Q \<Rightarrow>
          (case binary_sem_post_broadcast (has_jobs Q) (tm s) of
             Inr (_, m) \<Rightarrow> Some (s\<lparr>tm := m\<rparr>) | Inl _ \<Rightarrow> None)))))"

inductive pool_step :: "nat \<Rightarrow> pstate \<Rightarrow> pstate \<Rightarrow> bool" for p where
  act: "pool_act p a s = Some s' \<Longrightarrow> pool_step p s s'"

inductive pool_runs :: "nat \<Rightarrow> pstate \<Rightarrow> pstate \<Rightarrow> bool" for p where
  start: "pool_runs p s s"
| step: "pool_runs p s t \<Longrightarrow> pool_step p t u \<Longrightarrow> pool_runs p s u"

text \<open>A schedule of actions, run from a state.\<close>

fun run_schedule :: "nat \<Rightarrow> action list \<Rightarrow> pstate \<Rightarrow> pstate option" where
  "run_schedule p [] s = Some s"
| "run_schedule p (a # as) s = (case pool_act p a s of None \<Rightarrow> None | Some t \<Rightarrow> run_schedule p as t)"

inductive_cases pool_stepE: "pool_step p s t"

subsection \<open>Frames\<close>

lemma queue_ok_other [simp]:
  "queue_ok q (m\<lparr>pools := f\<rparr>) js = queue_ok q m js" "queue_ok q (m\<lparr>tbrk := n\<rparr>) js = queue_ok q m js"
  "queue_ok q (m\<lparr>mallocs := bs\<rparr>) js = queue_ok q m js"
  "queue_ok q (m\<lparr>threads_keep_alive := b\<rparr>) js = queue_ok q m js"
  by (simp_all add: queue_ok_def)

lemma queue_ok_sem:
  assumes "queue_ok q m js"
  shows "queue_ok q (m\<lparr>sems := (sems m)(s \<mapsto> x)\<rparr>) js"
proof -
  obtain Q t where Q: "queues m q = Some Q" "has_jobs Q = Ref t" "sems m t \<noteq> None"
    "job_count Q = int (length js)" "distinct js" "chain (jobs m) js"
    "if js = [] then front_job Q = Null \<and> rear_job Q = Null else front_job Q = Ref (hd js) \<and> rear_job Q = Ref (last js)"
    using assms unfolding queue_ok_def by blast
  then show ?thesis unfolding queue_ok_def by (intro exI [of _ Q] exI [of _ t]) auto
qed

lemma queue_ok_new_job:
  assumes "queue_ok q m js" "j \<notin> set js"
  shows "queue_ok q (m\<lparr>jobs := (jobs m)(j \<mapsto> x)\<rparr>) js"
proof -
  obtain Q t where Q: "queues m q = Some Q" "has_jobs Q = Ref t" "sems m t \<noteq> None"
    "job_count Q = int (length js)" "distinct js" "chain (jobs m) js"
    "if js = [] then front_job Q = Null \<and> rear_job Q = Null else front_job Q = Ref (hd js) \<and> rear_job Q = Ref (last js)"
    using assms(1) unfolding queue_ok_def by blast
  have "chain ((jobs m)(j \<mapsto> x)) js" by (rule chain_frame [OF Q(6)]) (use assms(2) in auto)
  then show ?thesis using Q unfolding queue_ok_def by (intro exI [of _ Q] exI [of _ t]) auto
qed

subsection \<open>The invariant\<close>

text \<open>The workers between the two updates of the working count.\<close>

fun counted :: "pc \<Rightarrow> bool" where
  "counted Pulling = True" | "counted (Pulled x) = True" | "counted (Ran x) = True" | "counted Uncounting = True"
| "counted _ = False"

definition pool_at :: "nat \<Rightarrow> nat \<Rightarrow> int \<Rightarrow> tmem \<Rightarrow> bool" where
  "pool_at p q n m \<longleftrightarrow> (\<exists>P. pools m p = Some P \<and> tp_job_queue P = Ref q \<and> thread_working_count P = n)"

text \<open>Every job added is waiting in the queue, has been pulled, or was run; none is in two places.\<close>

definition pool_inv :: "nat \<Rightarrow> nat \<Rightarrow> pstate \<Rightarrow> nat list \<Rightarrow> bool" where
  "pool_inv p q s js \<longleftrightarrow>
     pool_at p q (int (length (filter counted (pcs s)))) (tm s) \<and> queue_ok q (tm s) js \<and>
     mset (added s) = mset js + mset (concat (map called (pcs s))) + mset (ran s) \<and>
     distinct (added s) \<and> (\<forall>j \<in> set (added s). j < tbrk (tm s)) \<and>
     (\<forall>x. Ran x \<in> set (pcs s) \<longrightarrow> (\<exists>j. x = Ref j \<and> j \<in> set (ran s)))"

lemma called_simps [simp]:
  "called (Pulled (Ref j)) = [j]" "called (Pulled Null) = []" "called (Pulled Wild) = []" "called Starting = []"
  "called Looping = []" "called Waiting = []" "called Woken = []" "called Counting = []" "called Pulling = []"
  "called (Ran x) = []" "called Uncounting = []" "called Leaving = []" "called Gone = []"
  by (simp_all add: called_def)

text \<open>One worker \<open>c\<close> moves to \<open>c'\<close> with memory \<open>m'\<close>; the others are \<open>as\<close> and \<open>bs\<close>.\<close>

lemma pool_inv_disjoint:
  assumes "pool_inv p q s js" "j \<in> set (ran s)"
  shows "j \<notin> set js"
proof
  assume "j \<in> set js"
  then have "count (mset js) j \<ge> 1" "count (mset (ran s)) j \<ge> 1"
    using assms(2) by (simp_all add: Suc_le_eq)
  moreover have "count (mset (added s)) j = count (mset js) j + count (mset (concat (map called (pcs s)))) j
      + count (mset (ran s)) j"
    using assms(1) by (simp only: pool_inv_def count_union)
  ultimately have "count (mset (added s)) j \<ge> 2" by linarith
  moreover have "count (mset (added s)) j \<le> 1"
  proof -
    have "distinct (added s)" using assms(1) by (simp add: pool_inv_def)
    then show ?thesis by (simp only: distinct_count_atmost_1) simp
  qed
  ultimately show False by simp
qed

lemma pool_inv_move:
  assumes inv: "pool_inv p q s js" and pcs: "pcs s = as @ c # bs"
    and m': "queue_ok q m' js'" "tbrk m' = tbrk (tm s)"
    and at: "pool_at p q (int (length (filter counted (as @ c' # bs)))) m'"
    and bal: "mset js' + mset (called c') + mset ran' = mset js + mset (called c) + mset (ran s)"
    and r: "\<And>x. c' = Ran x \<Longrightarrow> \<exists>j. x = Ref j \<and> j \<in> set ran'" "set (ran s) \<subseteq> set ran'"
  shows "pool_inv p q (s\<lparr>tm := m', pcs := as @ c' # bs, ran := ran'\<rparr>) js'"
proof -
  have "mset (added s) = mset js + mset (concat (map called (as @ c # bs))) + mset (ran s)"
    using inv by (simp add: pool_inv_def pcs)
  also have "\<dots> = mset (concat (map called as)) + mset (concat (map called bs)) + (mset js + mset (called c) + mset (ran s))"
    by simp
  also have "\<dots> = mset js' + mset (concat (map called (as @ c' # bs))) + mset ran'"
    unfolding bal [symmetric] by simp
  finally have jobs: "mset (added s) = mset js' + mset (concat (map called (as @ c' # bs))) + mset ran'" .
  have "\<exists>j. x = Ref j \<and> j \<in> set ran'" if "Ran x \<in> set (as @ c' # bs)" for x
  proof (cases "c' = Ran x")
    case True
    then show ?thesis by (rule r(1))
  next
    case False
    then have "Ran x \<in> set (pcs s)" using that by (auto simp: pcs)
    then have "\<exists>j. x = Ref j \<and> j \<in> set (ran s)" using inv unfolding pool_inv_def by blast
    then show ?thesis using r(2) by blast
  qed
  with jobs show ?thesis
    using inv m' at by (simp add: pool_inv_def)
qed

lemma worker_step_inv:
  assumes inv: "pool_inv p q s js" and pcs: "pcs s = as @ c # bs"
    and st: "worker_step p c (tm s) = Inr (c', m')"
  shows "\<exists>js'. pool_inv p q (s\<lparr>tm := m', pcs := as @ c' # bs, ran := ran s @ called c\<rparr>) js'"
proof -
  obtain P where P: "pools (tm s) p = Some P" "tp_job_queue P = Ref q"
    "thread_working_count P = int (length (filter counted (as @ c # bs)))"
    using inv by (auto simp: pool_inv_def pool_at_def pcs)
  have q: "queue_ok q (tm s) js" using inv by (simp add: pool_inv_def)
  have quiet: "\<exists>js'. pool_inv p q (s\<lparr>tm := m', pcs := as @ c' # bs, ran := ran s @ called c\<rparr>) js'"
    if "queue_ok q m' js" "tbrk m' = tbrk (tm s)" "called c = []" "called c' = []" "\<And>x. c' \<noteq> Ran x"
      "pool_at p q (int (length (filter counted (as @ c' # bs)))) m'"
    using pool_inv_move [OF inv pcs that(1,2,6), of "ran s"] that(3,4,5) by auto
  show ?thesis
  proof (cases c)
    case Waiting
    with st P show ?thesis
      by (intro quiet) (auto simp: seq_Inr_iff deref_Inr_iff binary_sem_wait_def tmem_defs pool_at_def
          intro!: queue_ok_sem q split: option.splits if_splits)
  next
    case Pulling
    show ?thesis
    proof (cases js)
      case Nil
      then show ?thesis using st Pulling P q by (simp add: job_queue_pull_empty)
    next
      case (Cons j js')
      obtain m1 where m1: "job_queue_pull (Ref q) (tm s) = Inr (Ref j, m1)" "queue_ok q m1 js'" "pools m1 = pools (tm s)"
        using job_queue_pull_ok [of q "tm s" j js'] q Cons by blast
      have "tbrk m1 = tbrk (tm s)"
        using m1(1) by (auto simp: job_queue_pull_def tmem_defs binary_sem_post_def seq_Inr_iff deref_Inr_iff Let_def
            split: if_splits)
      moreover have c': "c' = Pulled (Ref j)" "m' = m1" using st Pulling P m1(1) by simp_all
      ultimately have "pool_inv p q (s\<lparr>tm := m1, pcs := as @ Pulled (Ref j) # bs, ran := ran s\<rparr>) js'"
        using m1 P Pulling by (intro pool_inv_move [OF inv pcs]) (auto simp: Cons pool_at_def)
      then show ?thesis using c' Pulling by auto
    qed
  next
    case (Pulled x)
    show ?thesis
    proof (cases x)
      case Null
      then show ?thesis using st P q Pulled by (intro quiet) (auto simp: pool_at_def)
    next
      case (Ref j)
      then have c': "c' = Ran (Ref j)" "m' = tm s" using st Pulled by (auto simp: seq_Inr_iff)
      have "pool_inv p q (s\<lparr>tm := tm s, pcs := as @ Ran (Ref j) # bs, ran := ran s @ [j]\<rparr>) js"
        using q P Pulled Ref by (intro pool_inv_move [OF inv pcs]) (auto simp: pool_at_def)
      then show ?thesis using c' Pulled Ref by auto
    next
      case Wild
      then show ?thesis using st Pulled by simp
    qed
  next
    case (Ran x)
    then obtain j where x: "x = Ref j" "j \<in> set (ran s)" using inv pcs by (auto simp: pool_inv_def)
    have "m' = (tm s)\<lparr>jobs := (jobs (tm s))(j := None)\<rparr>" "c' = Uncounting"
      using st Ran x by (auto simp: tfree_def split: if_splits)
    then show ?thesis
      using queue_ok_free_job [OF q pool_inv_disjoint [OF inv x(2)]] P Ran by (intro quiet) (auto simp: pool_at_def)
  next
    case Starting
    with st P have "m' = (tm s)\<lparr>pools := (pools (tm s))(p \<mapsto> P\<lparr>thread_alive_count := thread_alive_count P + 1\<rparr>)\<rparr>" "c' = Looping"
      by (simp_all add: tmem_defs)
    then show ?thesis using P q Starting by (intro quiet) (simp_all add: pool_at_def)
  next
    case Counting
    with st P have "m' = (tm s)\<lparr>pools := (pools (tm s))(p \<mapsto> P\<lparr>thread_working_count := thread_working_count P + 1\<rparr>)\<rparr>" "c' = Pulling"
      by (simp_all add: tmem_defs)
    then show ?thesis using P q Counting by (intro quiet) (simp_all add: pool_at_def)
  next
    case Uncounting
    with st P have "m' = (tm s)\<lparr>pools := (pools (tm s))(p \<mapsto> P\<lparr>thread_working_count := thread_working_count P - 1\<rparr>)\<rparr>" "c' = Looping"
      by (simp_all add: tmem_defs)
    then show ?thesis using P q Uncounting by (intro quiet) (simp_all add: pool_at_def)
  next
    case Leaving
    with st P have "m' = (tm s)\<lparr>pools := (pools (tm s))(p \<mapsto> P\<lparr>thread_alive_count := thread_alive_count P - 1\<rparr>)\<rparr>" "c' = Gone"
      by (simp_all add: tmem_defs)
    then show ?thesis using P q Leaving by (intro quiet) (simp_all add: pool_at_def)
  next
    case Looping
    with st have "m' = tm s" "c' = (if threads_keep_alive (tm s) then Waiting else Leaving)" by auto
    then show ?thesis using P q Looping by (intro quiet) (simp_all add: pool_at_def)
  next
    case Woken
    with st have "m' = tm s" "c' = (if \<not> threads_keep_alive (tm s) then Leaving else Counting)" by auto
    then show ?thesis using P q Woken by (intro quiet) (simp_all add: pool_at_def)
  next
    case Gone
    with st show ?thesis by simp
  qed
qed

lemma job_queue_push_tbrk:
  "job_queue_push p j m = Inr (r, m') \<Longrightarrow> tbrk m' = tbrk m"
  by (auto simp: job_queue_push_def tmem_defs binary_sem_post_def seq_Inr_iff deref_Inr_iff split: if_splits)

lemma pool_act_work_inv:
  assumes inv: "pool_inv p q s js" and act: "pool_act p (Work i) s = Some s'" "crashed s' = None"
  shows "\<exists>js'. pool_inv p q s' js'"
proof -
  let ?c = "pcs s ! i"
  have i: "i < length (pcs s)" using act by (auto simp: pool_act_def split: if_splits)
  obtain c' m' where st: "worker_step p ?c (tm s) = Inr (c', m')"
    "s' = s\<lparr>tm := m', pcs := (pcs s)[i := c'], ran := ran s @ called ?c\<rparr>"
    using act by (auto simp: pool_act_def split: if_splits sum.splits stop.splits)
  have "pcs s = take i (pcs s) @ ?c # drop (Suc i) (pcs s)" by (rule id_take_nth_drop [OF i])
  from worker_step_inv [OF inv this st(1)] show ?thesis
    by (simp add: st(2) upd_conv_take_nth_drop [OF i])
qed

lemma pool_act_add_inv:
  assumes inv: "pool_inv p q s js" and act: "pool_act p (Add f x) s = Some s'" "crashed s' = None"
  shows "\<exists>js'. pool_inv p q s' js'"
proof -
  obtain P where P: "pools (tm s) p = Some P" "tp_job_queue P = Ref q"
    "thread_working_count P = int (length (filter counted (pcs s)))"
    using inv by (auto simp: pool_inv_def pool_at_def)
  have q: "queue_ok q (tm s) js" using inv by (simp add: pool_inv_def)
  show ?thesis
  proof (cases "mallocs (tm s)")
    case Nil
    then show ?thesis using act P by (auto simp: pool_act_def thread_pool_add_work_def tmalloc_def split: if_splits)
  next
    case (Cons b bs)
    let ?j = "tbrk (tm s)"
    let ?m = "(tm s)\<lparr>mallocs := bs, tbrk := Suc ?j, jobs := (jobs (tm s))(?j \<mapsto> \<lparr>jb_prev = Wild, jb_function = f, jb_arg = x\<rparr>)\<rparr>"
    have js: "set js \<subseteq> set (added s)" using inv by (metis (no_types, lifting) UnCI pool_inv_def set_mset_mset set_mset_union subsetI)
    then have fresh: "?j \<notin> set js" using inv by (auto simp: pool_inv_def)
    have "queue_ok q ((tm s)\<lparr>mallocs := bs, tbrk := Suc ?j\<rparr>) js" using q by simp
    from queue_ok_new_job [OF this fresh] have qm: "queue_ok q ?m js" by simp
    obtain m' where m': "job_queue_push (Ref q) (Ref ?j) ?m = Inr (THREAD_SUCCESS, m')" "queue_ok q m' (js @ [?j])"
      "pools m' = pools ?m"
      using job_queue_push_ok [OF qm _ fresh] by auto
    have tb: "tbrk m' = Suc ?j" using job_queue_push_tbrk [OF m'(1)] by simp
    show ?thesis
    proof (cases b)
      case True
      have s': "s' = s\<lparr>tm := m', added := added s @ [?j]\<rparr>"
        using act P Cons True m'(1) by (auto simp: pool_act_def thread_pool_add_work_def tmalloc_def split: if_splits)
      have "pool_inv p q s' (js @ [?j])"
        using inv m' tb P by (auto simp: s' pool_inv_def pool_at_def less_Suc_eq)
      then show ?thesis by blast
    next
      case False
      have "s' = s\<lparr>tm := (tm s)\<lparr>mallocs := bs\<rparr>\<rparr>"
        using act P Cons False by (auto simp: pool_act_def thread_pool_add_work_def tmalloc_def split: if_splits)
      then have "pool_inv p q s' js" using inv by (simp add: pool_inv_def pool_at_def)
      then show ?thesis by blast
    qed
  qed
qed

lemma pool_act_inv:
  assumes inv: "pool_inv p q s js" and act: "pool_act p a s = Some s'" "crashed s' = None"
  shows "\<exists>js'. pool_inv p q s' js'"
proof (cases a)
  case (Work i)
  with assms show ?thesis by (auto intro: pool_act_work_inv)
next
  case (Add f x)
  with assms show ?thesis by (auto intro: pool_act_add_inv)
next
  case Stop
  then have "pool_inv p q s' js" using assms by (auto simp: pool_act_def pool_inv_def pool_at_def split: if_splits)
  then show ?thesis by blast
next
  case Broadcast
  obtain P Q t x where P: "pools (tm s) p = Some P" "tp_job_queue P = Ref q" "queues (tm s) q = Some Q"
    "has_jobs Q = Ref t" "sems (tm s) t = Some x"
    using inv by (auto simp: pool_inv_def pool_at_def queue_ok_def)
  then have "s' = s\<lparr>tm := (tm s)\<lparr>sems := (sems (tm s))(t \<mapsto> x\<lparr>state_value := Some 1\<rparr>)\<rparr>\<rparr>"
    using act Broadcast by (auto simp: pool_act_def binary_sem_post_broadcast_def tmem_defs split: if_splits)
  then have "pool_inv p q s' js" using inv by (auto simp: pool_inv_def pool_at_def intro: queue_ok_sem)
  then show ?thesis by blast
qed

lemma pool_act_crashed: "pool_act p a s = Some s' \<Longrightarrow> crashed s = None"
  by (auto simp: pool_act_def split: if_splits)

lemma pool_runs_inv:
  assumes "pool_runs p s t" "pool_inv p q s js" "crashed t = None"
  shows "\<exists>js'. pool_inv p q t js'"
  using assms
proof (induction rule: pool_runs.induct)
  case (start s)
  then show ?case by blast
next
  case (step s t u)
  obtain a where a: "pool_act p a t = Some u" using step.hyps(2) by (auto elim: pool_stepE)
  obtain js' where "pool_inv p q t js'" using step.IH [OF step.prems(1) pool_act_crashed [OF a]] by blast
  then show ?case using pool_act_inv [OF _ a step.prems(2)] by blast
qed

lemma run_schedule_runs: "run_schedule p as s = Some t \<Longrightarrow> pool_runs p r s \<Longrightarrow> pool_runs p r t"
  by (induction p as s rule: run_schedule.induct) (auto split: option.splits intro: pool_runs.step pool_step.act)

subsection \<open>What runs of the pool give\<close>

text \<open>A pool as \<open>thread_pool_create\<close> leaves it, with \<open>n\<close> workers, its queue empty; the semaphore has the
  value 0 that was asked for.\<close>

definition pool_start :: "nat \<Rightarrow> nat \<Rightarrow> nat \<Rightarrow> pstate \<Rightarrow> bool" where
  "pool_start p q n s \<longleftrightarrow> pool_at p q 0 (tm s) \<and> queue_ok q (tm s) [] \<and> queue_sem q (tm s) = Some 0 \<and>
     threads_keep_alive (tm s) \<and> pcs s = replicate n Starting \<and> ran s = [] \<and> added s = [] \<and> crashed s = None"

lemma pool_start_inv: "pool_start p q n s \<Longrightarrow> pool_inv p q s []"
  by (simp add: pool_start_def pool_inv_def)

lemma called_counted: "called c \<noteq> [] \<Longrightarrow> counted c"
  by (cases c) (simp_all add: called_def)

lemma pool_idle:
  assumes inv: "pool_inv p q s js" and w: "thread_pool_wait (Ref p) (tm s) = Inr (THREAD_SUCCESS, m)"
  shows "js = []" "filter counted (pcs s) = []"
proof -
  obtain P Q where P: "pools (tm s) p = Some P" "tp_job_queue P = Ref q" "queues (tm s) q = Some Q"
    "thread_working_count P = int (length (filter counted (pcs s)))" "job_count Q = int (length js)"
    using inv by (auto simp: pool_inv_def pool_at_def queue_ok_def)
  then have "\<not> (job_count Q > 0 \<or> thread_working_count P > 0)"
    using w by (auto simp: thread_pool_wait_def split: if_splits)
  then show "js = []" "filter counted (pcs s) = []" using P by (auto split: if_splits)
qed

lemma idle_no_calls: "filter counted cs = [] \<Longrightarrow> concat (map called cs) = []"
  using called_counted by (auto simp: filter_empty_conv)

lemma wait_done:
  assumes "pool_start p q n s" "pool_runs p s t" "crashed t = None"
    and "thread_pool_wait (Ref p) (tm t) = Inr (THREAD_SUCCESS, m)"
  shows "mset (ran t) = mset (added t) \<and> (\<forall>c \<in> set (pcs t). \<not> counted c)"
proof -
  obtain js where js: "pool_inv p q t js"
    using pool_runs_inv [OF assms(2) pool_start_inv [OF assms(1)] assms(3)] by blast
  have "js = []" "filter counted (pcs t) = []" using pool_idle [OF js assms(4)] by auto
  then show ?thesis using js idle_no_calls [of "pcs t"] by (auto simp: pool_inv_def filter_empty_conv)
qed

lemma distinct_sub_mset:
  assumes "mset xs \<subseteq># mset ys" "distinct ys"
  shows "distinct xs"
proof -
  have "count (mset xs) a = (if a \<in> set xs then 1 else 0)" for a
  proof -
    have "count (mset xs) a \<le> count (mset ys) a" using assms(1) by (rule mset_subset_eq_count)
    also have "\<dots> \<le> 1" using assms(2) by (simp only: distinct_count_atmost_1) simp
    finally have "count (mset xs) a \<le> 1" .
    moreover have "a \<in> set xs \<Longrightarrow> count (mset xs) a \<noteq> 0" by (simp add: count_eq_zero_iff)
    moreover have "a \<notin> set xs \<Longrightarrow> count (mset xs) a = 0" by (simp add: count_eq_zero_iff)
    ultimately show ?thesis by (cases "a \<in> set xs") (simp_all add: le_Suc_eq)
  qed
  then show ?thesis by (simp only: distinct_count_atmost_1) simp
qed

lemma jobs_kept:
  assumes "pool_start p q n s" "pool_runs p s t" "crashed t = None"
  shows "\<exists>js. queue_ok q (tm t) js \<and> distinct (ran t) \<and>
    mset (added t) = mset js + mset (concat (map called (pcs t))) + mset (ran t)"
proof -
  obtain js where js: "pool_inv p q t js"
    using pool_runs_inv [OF assms(2) pool_start_inv [OF assms(1)] assms(3)] by blast
  then have "distinct (added t)" "mset (ran t) \<subseteq># mset (added t)" by (auto simp: pool_inv_def)
  then have "distinct (ran t)" by (metis distinct_sub_mset)
  then show ?thesis using js by (auto simp: pool_inv_def)
qed



subsection \<open>Concrete runs\<close>

text \<open>A pool with \<open>n\<close> workers at address 2, its queue at 1, the semaphore at 0.\<close>

definition demo_pool :: "nat \<Rightarrow> pstate" where
  "demo_pool n = \<lparr>tm = \<lparr>jobs = Map.empty, sems = [0 \<mapsto> \<lparr>state_value = Some 0\<rparr>],
       queues = [1 \<mapsto> \<lparr>front_job = Null, rear_job = Null, has_jobs = Ref 0, job_count = 0\<rparr>], ths = Map.empty,
       pools = [2 \<mapsto> \<lparr>tp_threads = Some (replicate n Null), thread_alive_count = 0, thread_working_count = 0,
                     tp_job_queue = Ref 1\<rparr>],
       tbrk = 3, mallocs = [True, True], threads_keep_alive = True\<rparr>,
     pcs = replicate n Starting, ran = [], added = [], crashed = None\<rparr>"

lemma demo_pool_start: "pool_start 2 1 n (demo_pool n)"
  by (simp add: pool_start_def pool_at_def queue_ok_def queue_sem_def demo_pool_def)

text \<open>One worker takes a job from the queue and runs it, from its first step until it waits again.\<close>

definition one_job :: "action list" where
  "one_job = [Work 0, Work 0, Add 7 Null, Work 0, Work 0, Work 0, Work 0, Work 0, Work 0, Work 0]"

lemma one_job_result:
  "map_option (\<lambda>t. (ran t, added t, crashed t, map_sum id fst (thread_pool_wait (Ref 2) (tm t))))
     (run_schedule 2 one_job (demo_pool 2)) = Some ([3], [3], None, Inr THREAD_SUCCESS)"
  by code_simp

lemma one_job_runs:
  obtains t where "pool_runs 2 (demo_pool 2) t" "ran t = [3]" "added t = [3]" "crashed t = None"
    "thread_pool_wait (Ref 2) (tm t) = Inr (THREAD_SUCCESS, tm t)"
proof -
  obtain t where t: "run_schedule 2 one_job (demo_pool 2) = Some t" "ran t = [3]" "added t = [3]" "crashed t = None"
    "map_sum id fst (thread_pool_wait (Ref 2) (tm t)) = Inr THREAD_SUCCESS"
    using one_job_result by auto
  then have "thread_pool_wait (Ref 2) (tm t) = Inr (THREAD_SUCCESS, tm t)"
    by (auto simp: thread_pool_wait_def seq_def split: sum.splits if_splits)
  with t show ?thesis using run_schedule_runs [OF t(1) pool_runs.start] that by blast
qed



text \<open>A schedule of two workers and two jobs.\<close>

definition race :: "action list" where
  "race = [Work 0, Work 1, Work 0, Work 1, Add 7 Null, Work 0, Add 8 Null, Work 1,
     Work 0, Work 0, Work 0, Work 0, Work 0, Work 0, Work 0, Work 0, Work 0, Work 0,
     Work 1, Work 1, Work 1, Work 0]"

lemma race_result: "map_option crashed (run_schedule 2 race (demo_pool 2)) = Some (Some Null_deref)"
  by code_simp


subsection \<open>A pool with one worker\<close>

text \<open>The worker has been woken for a job and has not pulled it yet.\<close>

fun woken :: "pc \<Rightarrow> nat" where
  "woken Woken = 1" | "woken Counting = 1" | "woken Pulling = 1" | "woken _ = 0"

text \<open>
  While the pool is alive the semaphore and the wake-up that is under way together stand for no more jobs
  than there are. Once it is being stopped only a worker past its second test of
  \<open>threads_keep_alive\<close> still needs a job.
\<close>

definition one_inv :: "nat \<Rightarrow> nat \<Rightarrow> pc \<Rightarrow> tmem \<Rightarrow> nat list \<Rightarrow> bool" where
  "one_inv p q c m js \<longleftrightarrow> (\<exists>n. pool_at p q n m) \<and> queue_ok q m js \<and>
     (\<exists>v. queue_sem q m = Some v \<and> 0 \<le> v \<and> v \<le> 1 \<and> (threads_keep_alive m \<longrightarrow> v + int (woken c) \<le> int (length js))) \<and>
     (c = Counting \<or> c = Pulling \<longrightarrow> js \<noteq> []) \<and>
     (\<forall>x. c = Pulled x \<or> c = Ran x \<longrightarrow> (\<exists>j. x = Ref j \<and> jobs m j \<noteq> None \<and> j \<notin> set js)) \<and>
     (\<forall>j \<in> set js. j < tbrk m) \<and> (\<forall>x. c = Pulled x \<or> c = Ran x \<longrightarrow> (\<exists>j. x = Ref j \<and> j < tbrk m))"

lemma queue_sem_other [simp]:
  "queue_sem q (m\<lparr>pools := f\<rparr>) = queue_sem q m" "queue_sem q (m\<lparr>tbrk := n\<rparr>) = queue_sem q m"
  "queue_sem q (m\<lparr>mallocs := bs\<rparr>) = queue_sem q m" "queue_sem q (m\<lparr>threads_keep_alive := b\<rparr>) = queue_sem q m"
  "queue_sem q (m\<lparr>jobs := g\<rparr>) = queue_sem q m"
  by (auto simp: queue_sem_def split: option.split ptr.split)

lemma one_wait:
  assumes "one_inv p q Waiting m js" "worker_step p Waiting m = r"
  shows "r = Inl Blocked \<or> (\<exists>m'. r = Inr (Woken, m') \<and> one_inv p q Woken m' js)"
proof -
  obtain P Q t x v where P: "pools m p = Some P" "tp_job_queue P = Ref q" "queues m q = Some Q" "has_jobs Q = Ref t"
    "sems m t = Some x" "state_value x = Some v" "0 \<le> v" "v \<le> 1"
    "threads_keep_alive m \<longrightarrow> v \<le> int (length js)"
    using assms(1) by (auto simp: one_inv_def pool_at_def queue_ok_def queue_sem_def)
  show ?thesis
  proof (cases "v = 1")
    case True
    let ?m = "m\<lparr>sems := (sems m)(t \<mapsto> x\<lparr>state_value := Some 0\<rparr>)\<rparr>"
    have "r = Inr (Woken, ?m)" using assms(2) P True by (simp add: binary_sem_wait_def tmem_defs)
    moreover have "queue_ok q ?m js" using assms(1) by (intro queue_ok_sem) (simp add: one_inv_def)
    then have "one_inv p q Woken ?m js"
      using assms(1) P True by (simp add: one_inv_def pool_at_def queue_sem_def)
    ultimately show ?thesis by blast
  next
    case False
    then have "r = Inl Blocked" using assms(2) P by (simp add: binary_sem_wait_def)
    then show ?thesis by blast
  qed
qed

lemma pull_tbrk: "job_queue_pull p m = Inr (r, m') \<Longrightarrow> tbrk m' = tbrk m"
  by (auto simp: job_queue_pull_def tmem_defs binary_sem_post_def seq_Inr_iff deref_Inr_iff Let_def split: if_splits)

lemma one_pull:
  assumes "one_inv p q Pulling m js" "worker_step p Pulling m = r"
  shows "\<exists>c' m' js'. r = Inr (c', m') \<and> one_inv p q c' m' js'"
proof -
  obtain P where P: "pools m p = Some P" "tp_job_queue P = Ref q"
    using assms(1) by (auto simp: one_inv_def pool_at_def)
  obtain j l where js: "js = j # l" using assms(1) by (cases js) (auto simp: one_inv_def)
  have q: "queue_ok q m (j # l)" using assms(1) by (simp add: one_inv_def js)
  obtain m1 where m1: "job_queue_pull (Ref q) m = Inr (Ref j, m1)" "queue_ok q m1 l" "jobs m1 = jobs m" "pools m1 = pools m"
    "queue_sem q m1 = (if l = [] then queue_sem q m else Some 1)" "threads_keep_alive m1 = threads_keep_alive m"
    using job_queue_pull_ok [OF q] by auto
  have j: "jobs m j \<noteq> None" "j \<notin> set l" using q chain_dom [of "jobs m" "j # l" j] by (auto simp: queue_ok_def)
  have r: "r = Inr (Pulled (Ref j), m1)" using assms(2) P m1(1) by simp
  have "one_inv p q (Pulled (Ref j)) m1 l"
    using assms(1) m1 j pull_tbrk [OF m1(1)] by (cases l) (auto simp: one_inv_def js pool_at_def)
  with r show ?thesis by blast
qed

lemma one_worker_step:
  assumes inv: "one_inv p q c m js" and st: "worker_step p c m = r"
  shows "r = Inl Blocked \<or> (\<exists>c' m' js'. r = Inr (c', m') \<and> one_inv p q c' m' js')"
proof -
  obtain P where P: "pools m p = Some P" "tp_job_queue P = Ref q"
    using inv by (auto simp: one_inv_def pool_at_def)
  have upd: "one_inv p q c' (m\<lparr>pools := (pools m)(p \<mapsto> P')\<rparr>) js"
    if "one_inv p q c' m js" "tp_job_queue P' = Ref q" for c' P'
    using that by (simp add: one_inv_def pool_at_def)
  show ?thesis
  proof (cases c)
    case Waiting
    then show ?thesis using one_wait [of p q m js r] inv st by blast
  next
    case Pulling
    then show ?thesis using one_pull [of p q m js r] inv st by blast
  next
    case (Pulled x)
    then obtain j where x: "x = Ref j" "jobs m j \<noteq> None" using inv by (auto simp: one_inv_def)
    then have "r = Inr (Ran x, m)" using st Pulled by auto
    moreover have "one_inv p q (Ran x) m js" using inv Pulled by (simp add: one_inv_def)
    ultimately show ?thesis by blast
  next
    case (Ran x)
    then obtain j where x: "x = Ref j" "jobs m j \<noteq> None" "j \<notin> set js" using inv by (auto simp: one_inv_def)
    then have "r = Inr (Uncounting, m\<lparr>jobs := (jobs m)(j := None)\<rparr>)" using st Ran by (auto simp: tfree_def)
    moreover have "queue_ok q (m\<lparr>jobs := (jobs m)(j := None)\<rparr>) js"
      using inv by (intro queue_ok_free_job x(3)) (simp add: one_inv_def)
    then have "one_inv p q Uncounting (m\<lparr>jobs := (jobs m)(j := None)\<rparr>) js"
      using inv Ran by (simp add: one_inv_def pool_at_def)
    ultimately show ?thesis by blast
  next
    case Woken
    have "one_inv p q (if \<not> threads_keep_alive m then Leaving else Counting) m js"
      using inv Woken by (auto simp: one_inv_def)
    then show ?thesis using st Woken by auto
  next
    case Counting
    have "one_inv p q Pulling m js" using inv Counting by (simp add: one_inv_def)
    then show ?thesis
      using st Counting P upd [of Pulling "P\<lparr>thread_working_count := thread_working_count P + 1\<rparr>"]
      by (auto simp: tmem_defs)
  next
    case Starting
    have "one_inv p q Looping m js" using inv Starting by (simp add: one_inv_def)
    then show ?thesis
      using st Starting P upd [of Looping "P\<lparr>thread_alive_count := thread_alive_count P + 1\<rparr>"]
      by (auto simp: tmem_defs)
  next
    case Uncounting
    have "one_inv p q Looping m js" using inv Uncounting by (simp add: one_inv_def)
    then show ?thesis
      using st Uncounting P upd [of Looping "P\<lparr>thread_working_count := thread_working_count P - 1\<rparr>"]
      by (auto simp: tmem_defs)
  next
    case Leaving
    have "one_inv p q Gone m js" using inv Leaving by (simp add: one_inv_def)
    then show ?thesis
      using st Leaving P upd [of Gone "P\<lparr>thread_alive_count := thread_alive_count P - 1\<rparr>"]
      by (auto simp: tmem_defs)
  next
    case Looping
    have "one_inv p q (if threads_keep_alive m then Waiting else Leaving) m js"
      using inv Looping by (simp add: one_inv_def)
    then show ?thesis using st Looping by auto
  next
    case Gone
    then show ?thesis using st by auto
  qed
qed

lemma one_add:
  assumes inv: "one_inv p q c (tm s) js" and act: "pool_act p (Add f x) s = Some s'"
  shows "crashed s' = crashed s \<and> pcs s' = pcs s \<and> (\<exists>js'. one_inv p q c (tm s') js')"
proof -
  obtain P where P: "pools (tm s) p = Some P" "tp_job_queue P = Ref q"
    using inv by (auto simp: one_inv_def pool_at_def)
  show ?thesis
  proof (cases "mallocs (tm s)")
    case Nil
    then show ?thesis using act P by (auto simp: pool_act_def thread_pool_add_work_def tmalloc_def split: if_splits)
  next
    case (Cons b bs)
    let ?j = "tbrk (tm s)"
    let ?m = "(tm s)\<lparr>mallocs := bs, tbrk := Suc ?j, jobs := (jobs (tm s))(?j \<mapsto> \<lparr>jb_prev = Wild, jb_function = f, jb_arg = x\<rparr>)\<rparr>"
    have fresh: "?j \<notin> set js" using inv by (auto simp: one_inv_def)
    have "queue_ok q ((tm s)\<lparr>mallocs := bs, tbrk := Suc ?j\<rparr>) js" using inv by (simp add: one_inv_def)
    from queue_ok_new_job [OF this fresh] have qm: "queue_ok q ?m js" by simp
    obtain m' where m': "job_queue_push (Ref q) (Ref ?j) ?m = Inr (THREAD_SUCCESS, m')" "queue_ok q m' (js @ [?j])"
      "pools m' = pools ?m" "queue_sem q m' = Some 1" "dom (jobs m') = dom (jobs ?m)"
      "threads_keep_alive m' = threads_keep_alive (tm s)"
      using job_queue_push_ok [OF qm _ fresh] by auto
    have tb: "tbrk m' = Suc ?j" using job_queue_push_tbrk [OF m'(1)] by simp
    show ?thesis
    proof (cases b)
      case True
      have s': "s' = s\<lparr>tm := m', added := added s @ [?j]\<rparr>"
        using act P Cons True m'(1) by (auto simp: pool_act_def thread_pool_add_work_def tmalloc_def split: if_splits)
      have live: "jobs m' j \<noteq> None" if "jobs (tm s) j \<noteq> None" for j
        using that m'(5) by (auto simp: dom_def)
      have "one_inv p q c m' (js @ [?j])"
        using inv m' tb live unfolding one_inv_def pool_at_def by (fastforce simp: less_Suc_eq)
      then show ?thesis by (auto simp: s')
    next
      case False
      have "s' = s\<lparr>tm := (tm s)\<lparr>mallocs := bs\<rparr>\<rparr>"
        using act P Cons False by (auto simp: pool_act_def thread_pool_add_work_def tmalloc_def split: if_splits)
      moreover have "one_inv p q c ((tm s)\<lparr>mallocs := bs\<rparr>) js" using inv by (simp add: one_inv_def pool_at_def)
      ultimately show ?thesis by auto
    qed
  qed
qed

definition one_ok :: "nat \<Rightarrow> nat \<Rightarrow> pstate \<Rightarrow> bool" where
  "one_ok p q s \<longleftrightarrow> crashed s = None \<and> (\<exists>c js. pcs s = [c] \<and> one_inv p q c (tm s) js)"

lemma one_act:
  assumes "one_ok p q s" "pool_act p a s = Some s'"
  shows "one_ok p q s'"
proof -
  obtain c js where c: "crashed s = None" "pcs s = [c]" "one_inv p q c (tm s) js"
    using assms(1) by (auto simp: one_ok_def)
  show ?thesis
  proof (cases a)
    case (Work i)
    then have "i = 0" using assms(2) c by (auto simp: pool_act_def split: if_splits)
    have "worker_step p c (tm s) \<noteq> Inl Blocked" using \<open>i = 0\<close> assms(2) c(1,2) Work by (auto simp: pool_act_def)
    then obtain c' m' js' where st: "worker_step p c (tm s) = Inr (c', m')" "one_inv p q c' m' js'"
      using one_worker_step [OF c(3) refl] by blast
    then have "s' = s\<lparr>tm := m', pcs := [c'], ran := ran s @ called c\<rparr>"
      using \<open>i = 0\<close> assms(2) c(1,2) Work by (simp add: pool_act_def)
    then show ?thesis using st(2) c(1) unfolding one_ok_def by auto
  next
    case (Add f x)
    then show ?thesis using one_add [OF c(3)] assms(2) c(1,2) by (auto simp: one_ok_def)
  next
    case Stop
    have "one_inv p q c ((tm s)\<lparr>threads_keep_alive := False\<rparr>) js"
      using c(3) by (auto simp: one_inv_def pool_at_def)
    then show ?thesis using Stop assms(2) c(1,2) by (auto simp: pool_act_def one_ok_def)
  next
    case Broadcast
    obtain P Q t y where P: "pools (tm s) p = Some P" "tp_job_queue P = Ref q" "queues (tm s) q = Some Q"
      "has_jobs Q = Ref t" "sems (tm s) t = Some y"
      using c(3) by (auto simp: one_inv_def pool_at_def queue_ok_def)
    let ?m = "(tm s)\<lparr>sems := (sems (tm s))(t \<mapsto> y\<lparr>state_value := Some 1\<rparr>)\<rparr>"
    have s': "s' = s\<lparr>tm := ?m\<rparr>" "\<not> threads_keep_alive (tm s)"
      using assms(2) Broadcast P c(1) by (auto simp: pool_act_def binary_sem_post_broadcast_def tmem_defs split: if_splits)
    have "queue_ok q ?m js" using c(3) by (intro queue_ok_sem) (simp add: one_inv_def)
    then have "one_inv p q c ?m js"
      using c(3) s'(2) P by (auto simp: one_inv_def pool_at_def queue_sem_def)
    then show ?thesis using c(1,2) by (auto simp: s'(1) one_ok_def)
  qed
qed

lemma one_runs:
  assumes "pool_runs p s t" "one_ok p q s"
  shows "one_ok p q t"
  using assms
proof (induction rule: pool_runs.induct)
  case (start s)
  then show ?case .
next
  case (step s t u)
  then show ?case using one_act by (auto elim: pool_stepE)
qed

lemma pool_start_one: "pool_start p q 1 s \<Longrightarrow> one_ok p q s"
  by (auto simp: pool_start_def one_ok_def one_inv_def)



subsection \<open>Creating a pool\<close>

text \<open>\<open>threads_ok\<close>: the pool at \<open>p\<close> has \<open>n\<close> places for threads, the first \<open>i\<close> of them taken.\<close>

definition threads_ok :: "nat \<Rightarrow> nat \<Rightarrow> nat \<Rightarrow> nat \<Rightarrow> tmem \<Rightarrow> bool" where
  "threads_ok p q i n m \<longleftrightarrow> (\<exists>P ts. pools m p = Some P \<and> tp_job_queue P = Ref q \<and> thread_working_count P = 0 \<and>
     thread_alive_count P = 0 \<and> tp_threads P = Some ts \<and> length ts = n \<and>
     (\<forall>k < i. \<exists>a. ts ! k = Ref a \<and> (\<exists>t. ths m a = Some t \<and> th_id t = k \<and> th_parent_pool t = Ref p) \<and> a < tbrk m))"

lemma thread_create_ok:
  assumes "threads_ok p q i n m" "i < n" "mallocs m = True # bs"
  shows "\<exists>m'. thread_create (Ref p) i m = Inr (Ref (tbrk m), m') \<and> threads_ok p q (Suc i) n m' \<and>
    mallocs m' = bs \<and> queues m' = queues m \<and> sems m' = sems m \<and> jobs m' = jobs m \<and>
    threads_keep_alive m' = threads_keep_alive m"
proof -
  obtain P ts where P: "pools m p = Some P" "tp_threads P = Some ts" "length ts = n" "tp_job_queue P = Ref q"
    "thread_working_count P = 0" "thread_alive_count P = 0"
    "\<And>k. k < i \<Longrightarrow> \<exists>a. ts ! k = Ref a \<and> (\<exists>t. ths m a = Some t \<and> th_id t = k \<and> th_parent_pool t = Ref p) \<and> a < tbrk m"
    using assms(1) unfolding threads_ok_def by blast
  let ?m = "m\<lparr>mallocs := bs, tbrk := Suc (tbrk m), ths := (ths m)(tbrk m \<mapsto> \<lparr>th_id = i, th_parent_pool = Ref p\<rparr>),
    pools := (pools m)(p \<mapsto> P\<lparr>tp_threads := Some (ts[i := Ref (tbrk m)])\<rparr>)\<rparr>"
  have "thread_create (Ref p) i m = Inr (Ref (tbrk m), ?m)"
    using P(1-3) assms(2,3) by (simp add: thread_create_def tmem_defs Let_def)
  moreover have "\<exists>a. ts[i := Ref (tbrk m)] ! k = Ref a \<and> (\<exists>t. ths ?m a = Some t \<and> th_id t = k \<and> th_parent_pool t = Ref p) \<and>
      a < tbrk ?m" if le: "k < Suc i" for k
  proof (cases "k = i")
    case True
    then show ?thesis using assms(2) P(3) by simp
  next
    case False
    then obtain a where "ts ! k = Ref a" "\<exists>t. ths m a = Some t \<and> th_id t = k \<and> th_parent_pool t = Ref p" "a < tbrk m"
      using P(7) [of k] le by auto
    then show ?thesis using False by auto
  qed
  then have "threads_ok p q (Suc i) n ?m"
    unfolding threads_ok_def using P(3-6)
    by (intro exI [of _ "P\<lparr>tp_threads := Some (ts[i := Ref (tbrk m)])\<rparr>"] exI [of _ "ts[i := Ref (tbrk m)]"]) simp
  ultimately show ?thesis by auto
qed

lemma create_threads_ok:
  assumes "threads_ok p q i (i + n) m" "mallocs m = replicate n True @ bs"
  shows "\<exists>m'. create_threads i n (Ref p) m = Inr m' \<and> threads_ok p q (i + n) (i + n) m' \<and>
    mallocs m' = bs \<and> queues m' = queues m \<and> sems m' = sems m \<and> jobs m' = jobs m \<and>
    threads_keep_alive m' = threads_keep_alive m"
  using assms
proof (induction n arbitrary: i m)
  case 0
  then show ?case by simp
next
  case (Suc n)
  obtain m1 where m1: "thread_create (Ref p) i m = Inr (Ref (tbrk m), m1)" "threads_ok p q (Suc i) (i + Suc n) m1"
    "mallocs m1 = replicate n True @ bs" "queues m1 = queues m" "sems m1 = sems m" "jobs m1 = jobs m"
    "threads_keep_alive m1 = threads_keep_alive m"
    using thread_create_ok [OF Suc.prems(1), of "replicate n True @ bs"] Suc.prems(2) by auto
  with Suc.IH [of "Suc i" m1] show ?case by auto
qed

lemma thread_pool_create_run:
  assumes "mallocs m = replicate (4 + n) True @ bs"
  shows "\<exists>p q m'. thread_pool_create (int n) m = Inr (Ref p, m') \<and> threads_ok p q n n m' \<and>
    queue_ok q m' [] \<and> queue_sem q m' = None \<and> mallocs m' = bs \<and>
    threads_keep_alive m' = threads_keep_alive m"
proof -
  let ?p = "tbrk m" and ?q = "Suc (tbrk m)" and ?s = "Suc (Suc (tbrk m))"
  have mal: "mallocs m = True # True # True # True # replicate n True @ bs"
    using assms by (simp add: eval_nat_numeral)
  let ?P = "\<lparr>tp_threads = Some (replicate n Null), thread_alive_count = 0, thread_working_count = 0, tp_job_queue = Ref ?q\<rparr>"
  let ?m = "m\<lparr>sems := (sems m)(?s \<mapsto> \<lparr>state_value = None\<rparr>), tbrk := Suc ?s,
     queues := (queues m)(?q \<mapsto> \<lparr>front_job = Null, rear_job = Null, has_jobs = Ref ?s, job_count = 0\<rparr>),
     mallocs := replicate n True @ bs, pools := (pools m)(?p \<mapsto> ?P)\<rparr>"
  have t: "threads_ok ?p ?q 0 (0 + n) ?m" unfolding threads_ok_def by (intro exI [of _ ?P]) simp
  obtain m' where m': "create_threads 0 n (Ref ?p) ?m = Inr m'" "threads_ok ?p ?q (0 + n) (0 + n) m'"
    "mallocs m' = bs" "queues m' = queues ?m" "sems m' = sems ?m" "jobs m' = jobs ?m"
    "threads_keep_alive m' = threads_keep_alive ?m"
    using create_threads_ok [OF t, of bs] by auto
  have "thread_pool_create (int n) m = seq (create_threads 0 n (Ref ?p) ?m) (\<lambda>m. Inr (Ref ?p, m))"
    by (simp add: thread_pool_create_def job_queue_create_def binary_sem_create_def tmem_defs mal Let_def)
  then have "thread_pool_create (int n) m = Inr (Ref ?p, m')" using m'(1) by simp
  moreover have "queue_ok ?q m' []" "queue_sem ?q m' = None"
    using m'(4-6) by (simp_all add: queue_ok_def queue_sem_def)
  ultimately show ?thesis using m' by auto
qed

text \<open>C29: When memory is granted, \<open>thread_pool_create\<close> gives a pool with an empty queue and one thread
  structure, with its number and its pool, in every place of its array. The state of the queue's semaphore
  has not been initialised: if a worker gets as far as waiting before a job is added, it reads an
  indeterminate value.\<close>

theorem thread_pool_create_uninitialised:
  assumes "mallocs m = replicate (4 + n) True @ bs" "0 < n" "threads_keep_alive m"
  shows "\<exists>p q m'. thread_pool_create (int n) m = Inr (Ref p, m') \<and> threads_ok p q n n m' \<and> queue_ok q m' [] \<and>
    map_option crashed (run_schedule p [Work 0, Work 0, Work 0]
      \<lparr>tm = m', pcs = replicate n Starting, ran = [], added = [], crashed = None\<rparr>) = Some (Some Uninit_read)"
proof -
  obtain p q m' where m': "thread_pool_create (int n) m = Inr (Ref p, m')" "threads_ok p q n n m'" "queue_ok q m' []"
    "queue_sem q m' = None" "threads_keep_alive m'"
    using thread_pool_create_run [OF assms(1)] assms(3) by auto
  obtain P where P: "pools m' p = Some P" "tp_job_queue P = Ref q" using m'(2) by (auto simp: threads_ok_def)
  obtain Q t x where Q: "queues m' q = Some Q" "has_jobs Q = Ref t" "sems m' t = Some x"
    using m'(3) by (auto simp: queue_ok_def)
  have "state_value x = None" using m'(4) Q by (simp add: queue_sem_def)
  then have "map_option crashed (run_schedule p [Work 0, Work 0, Work 0]
      \<lparr>tm = m', pcs = replicate n Starting, ran = [], added = [], crashed = None\<rparr>) = Some (Some Uninit_read)"
    using P Q m'(5) assms(2) by (cases n) (simp_all add: pool_act_def tmem_defs binary_sem_wait_def)
  with m' show ?thesis by blast
qed

theorem thread_pool_create_uninitialised_witness:
  "\<exists>p m'. thread_pool_create 10 (demo_tmem\<lparr>mallocs := replicate 14 True\<rparr>) = Inr (Ref p, m')"
  using thread_pool_create_uninitialised [of "demo_tmem\<lparr>mallocs := replicate 14 True\<rparr>" 10 "[]"]
  by (auto simp: demo_tmem_def)

text \<open>When the memory for the job queue is refused, the clean-up path of \<open>thread_pool_create\<close> hands the
  missing queue to \<open>job_queue_free\<close>, which follows the NULL pointer.\<close>

theorem thread_pool_create_no_queue_crashes:
  assumes "mallocs m = True # False # bs \<or> mallocs m = True # True # False # bs"
  shows "thread_pool_create n m = Inl (UB Null_deref)"
  using assms
  by (auto simp: thread_pool_create_def job_queue_create_def binary_sem_create_def tmem_defs Let_def
      thread_pool_free_def thread_pool_free_rest_def job_queue_free_def job_queue_clear_def)

theorem thread_pool_create_no_queue_crashes_witness:
  "thread_pool_create 10 (demo_tmem\<lparr>mallocs := [True, False]\<rparr>) = Inl (UB Null_deref)"
  by (rule thread_pool_create_no_queue_crashes) simp

lemma thread_pool_free_idle:
  assumes "threads_ok p q n n m" "queue_ok q m []" "mallocs m = True # bs"
  shows "\<exists>m'. thread_pool_free (Ref p) m = Inr (THREAD_SUCCESS, m') \<and> pools m' p = None \<and> queues m' q = None \<and>
    ths m' = ths m \<and> worker_step p Starting m' = Inl (UB Use_after_free)"
proof -
  obtain P ts where P: "pools m p = Some P" "thread_alive_count P = 0" "tp_job_queue P = Ref q" "tp_threads P = Some ts"
    using assms(1) by (auto simp: threads_ok_def)
  obtain Q s x where Q: "queues m q = Some Q" "has_jobs Q = Ref s" "sems m s = Some x" "job_count Q = 0"
    using assms(2) by (auto simp: queue_ok_def)
  show ?thesis
    using P Q assms(3)
    by (simp add: thread_pool_free_def thread_pool_free_rest_def job_queue_free_def job_queue_clear_def
        binary_sem_reset_def binary_sem_create_def tfree_def tmem_defs Let_def)
qed

text \<open>\<open>thread_pool_free\<close> waits only for workers that have counted themselves alive. On a pool whose
  threads have been created but have not run yet it frees the queue and the pool at once and reports
  success, none of the thread structures is freed (the loop goes up to the number alive), and each of
  the threads uses the freed pool with its first step.\<close>

theorem thread_pool_free_before_start:
  assumes "threads_ok p q n n m" "queue_ok q m []" "mallocs m = True # bs"
  shows "\<exists>m'. thread_pool_free (Ref p) m = Inr (THREAD_SUCCESS, m') \<and> pools m' p = None \<and> queues m' q = None \<and>
    ths m' = ths m \<and> worker_step p Starting m' = Inl (UB Use_after_free)"
  by (rule thread_pool_free_idle [OF assms])

theorem thread_pool_free_before_start_witness:
  "\<exists>p m m'. thread_pool_create 2 (demo_tmem\<lparr>mallocs := replicate 6 True @ [True]\<rparr>) = Inr (Ref p, m) \<and>
     thread_pool_free (Ref p) m = Inr (THREAD_SUCCESS, m') \<and> worker_step p Starting m' = Inl (UB Use_after_free)"
proof -
  have "mallocs (demo_tmem\<lparr>mallocs := replicate 6 True @ [True]\<rparr>) = replicate (4 + 2) True @ [True]" by simp
  from thread_pool_create_run [OF this] obtain p q m where
    "thread_pool_create (int 2) (demo_tmem\<lparr>mallocs := replicate 6 True @ [True]\<rparr>) = Inr (Ref p, m)"
    "threads_ok p q 2 2 m" "queue_ok q m []" "mallocs m = [True]" by blast
  with thread_pool_free_before_start [of p q 2 m "[]"] show ?thesis by auto
qed

end
