(* ===== verification/Config.thy ===== *)
theory Config
  imports Session Pool
begin

section \<open>option.c: the command line, the configuration file, start-up and release\<close>

text \<open>
  \<open>src/option.c\<close>. A configuration file is the string of its bytes, \<open>None\<close> when it cannot be
  opened; an argument vector is the list of its C strings. Creating and freeing the options acts on
  sockets and lists and on the thread pool as well: the state of a process has both memories and the
  option structures. Messages to the terminal are left out.
\<close>

subsection \<open>The state of a process\<close>

record proc =
  wd :: world
  td :: tmem
  popts :: "nat \<Rightarrow> option_s option"

definition on_wd :: "(world \<Rightarrow> ('a \<times> world) cres) \<Rightarrow> proc \<Rightarrow> ('a \<times> proc) cres" where
  "on_wd f p = seq (f (wd p)) (\<lambda>(x, w). Inr (x, p\<lparr>wd := w\<rparr>))"

definition on_td :: "(tmem \<Rightarrow> ('a \<times> tmem) cres) \<Rightarrow> proc \<Rightarrow> ('a \<times> proc) cres" where
  "on_td f p = seq (f (td p)) (\<lambda>(x, m). Inr (x, p\<lparr>td := m\<rparr>))"

definition load_opt :: "ptr \<Rightarrow> proc \<Rightarrow> option_s cres" where
  "load_opt dest p = deref (popts p) dest"

definition upd_opt :: "ptr \<Rightarrow> (option_s \<Rightarrow> option_s) \<Rightarrow> proc \<Rightarrow> proc cres" where
  "upd_opt dest f p = seq (load_opt dest p) (\<lambda>x. seq (addr_of dest) (\<lambda>a. Inr (p\<lparr>popts := (popts p)(a \<mapsto> f x)\<rparr>)))"

datatype log_option_get_error_type =
  OPTION_GET_SUCCESS | OPTION_GET_FILE_PARSE_ERROR | OPTION_GET_ARGS_PARSE_ERROR

datatype get_argument_error_type = ARGUMENT_SUCCESS | ARGUMENT_FAIL | ARGUMENT_NOT_FOUND

subsection \<open>The command line\<close>

text \<open>
  Every path through the body of the loop returns, so only the argument with index 1 is looked
  at. The argument after the last one is NULL.
\<close>

definition get_option_from_argument :: "char list list \<Rightarrow> get_argument_error_type cres" where
  "get_option_from_argument argv =
     (if length argv > 3 then Inr ARGUMENT_FAIL
      else if length argv \<le> 1 then Inr ARGUMENT_NOT_FOUND
      else seq (strcmp (argv ! 1) (c_lit ''-c'')) (\<lambda>c.
           if c = 0 \<and> length argv > 2
           then seq (strcmp (argv ! 2) (c_lit ''debugging'')) (\<lambda>d.
                if d = 0 then Inr ARGUMENT_SUCCESS else Inr ARGUMENT_FAIL)
           else if c = 0 then Inr ARGUMENT_FAIL
           else seq (strcmp (argv ! 1) (c_lit ''-h'')) (\<lambda>h.
                if h = 0 then Inr ARGUMENT_SUCCESS
                else seq (strcmp (argv ! 1) (c_lit ''--help'')) (\<lambda>h.
                if h = 0 then Inr ARGUMENT_SUCCESS else Inr ARGUMENT_FAIL))))"

subsection \<open>The configuration file\<close>

text \<open>\<open>fgets\<close> with a buffer of \<open>Suc k\<close> bytes: up to a line end, at most \<open>k\<close> bytes.\<close>

fun fgets_line :: "nat \<Rightarrow> string \<Rightarrow> string \<times> string" where
  "fgets_line 0 s = ([], s)"
| "fgets_line (Suc k) [] = ([], [])"
| "fgets_line (Suc k) (c # s) =
     (if c = LF then ([c], s) else (let (l, r) = fgets_line k s in (c # l, r)))"

definition fgets :: "nat \<Rightarrow> string \<Rightarrow> (string \<times> string) option" where
  "fgets n s = (if s = [] \<or> n \<le> 1 then None else Some (fgets_line (n - 1) s))"

definition MAX_CONFIG_KEY_LENGTH :: nat where "MAX_CONFIG_KEY_LENGTH = 32"

text \<open>The loop that copies the key, and the terminator after it: \<open>key\<close> are the bytes stored.\<close>

fun read_key :: "char list \<Rightarrow> char list \<Rightarrow> (char list \<times> char list) cres" where
  "read_key key [] = Inl (UB Out_of_bounds)"
| "read_key key (c # cs) =
     (if length key \<ge> MAX_CONFIG_KEY_LENGTH then Inl (UB Out_of_bounds)
      else if schar c > schar (CHR '' '') then read_key (key @ [c]) cs
      else Inr (key @ [NUL], c # cs))"

definition keycmp :: "char list \<Rightarrow> char list \<Rightarrow> int cres" where
  "keycmp target original_key =
     seq (strlen original_key) (\<lambda>n. strncmp target original_key n)"

definition skip_ws :: "char list \<Rightarrow> char list cres" where
  "skip_ws current_pos = seq (skip_whitespace (Some (Some current_pos))) (\<lambda>p.
     case p of Some (Some q) \<Rightarrow> Inr q | _ \<Rightarrow> Inl (UB Null_deref))"

lemma fgets_line_shorter: "fgets_line (Suc k) (c # s) = (l, r) \<Longrightarrow> length r < Suc (length s)"
proof -
  have "length (snd (fgets_line k s)) \<le> length s" for k s
    by (induction k s rule: fgets_line.induct) (auto split: prod.splits)
  then show "fgets_line (Suc k) (c # s) = (l, r) \<Longrightarrow> length r < Suc (length s)"
    by (auto split: if_splits prod.splits simp: le_imp_less_Suc) (metis le_imp_less_Suc snd_conv)
qed

lemma fgets_shorter: "fgets n s = Some (l, r) \<Longrightarrow> length r < length s"
  by (cases s; cases "n - 1") (auto simp: fgets_def simp del: fgets_line.simps dest: fgets_line_shorter split: if_splits)

text \<open>The loop over the lines; the bytes of the buffer after the terminator are never looked at.\<close>

function read_options :: "(nat \<Rightarrow> option_s option) \<Rightarrow> ptr \<Rightarrow> string \<Rightarrow> world \<Rightarrow> (bool \<times> world) cres" where
  "read_options opts dest file w =
     (case fgets 4096 file of None \<Rightarrow> Inr (True, w) | Some (data, file) \<Rightarrow>
     seq (skip_ws (data @ [NUL])) (\<lambda>current_pos.
     seq (read_key [] current_pos) (\<lambda>(config_key, current_pos).
     seq (keycmp config_key (c_lit ''server_address'')) (\<lambda>ret.
     if ret = 0
     then seq (skip_ws current_pos) (\<lambda>current_pos.
          seq (deref opts dest) (\<lambda>d.
          seq (server_insert_address (opt_server_list d) (Some current_pos) w) (\<lambda>(_, w).
          read_options opts dest file w)))
     else Inr (False, w)))))"
  by pat_completeness auto
termination
  by (relation "measure (\<lambda>(opts, dest, file, w). length file)") (auto dest: fgets_shorter)

declare read_options.simps [simp del]

definition get_option_from_file :: "ptr \<Rightarrow> string option \<Rightarrow> proc \<Rightarrow> (bool \<times> proc) cres" where
  "get_option_from_file dest file p =
     (case file of None \<Rightarrow> Inr (False, p)
      | Some content \<Rightarrow> on_wd (read_options (popts p) dest content) p)"

definition get_options ::
  "ptr \<Rightarrow> char list list \<Rightarrow> string option \<Rightarrow> proc \<Rightarrow> (log_option_get_error_type \<times> proc) cres" where
  "get_options dest argv file p =
     seq (get_option_from_argument argv) (\<lambda>r.
     if r \<noteq> ARGUMENT_NOT_FOUND then Inr (OPTION_GET_ARGS_PARSE_ERROR, p) else
     seq (get_option_from_file dest file p) (\<lambda>(ok, p).
     if \<not> ok then Inr (OPTION_GET_FILE_PARSE_ERROR, p) else Inr (OPTION_GET_SUCCESS, p)))"

text \<open>\<open>create_option_file\<close> closes the file even when it could not be opened.\<close>

definition create_option_file :: "bool \<Rightarrow> int cres" where
  "create_option_file could_open = (if could_open then Inr 0 else Inl (UB Null_deref))"

subsection \<open>Creating and freeing the options\<close>

text \<open>\<open>malloc\<close> and \<open>memset\<close> of the structure: two list heads at addresses of their own, zero elsewhere.\<close>

definition alloc_option :: "proc \<Rightarrow> (ptr \<times> proc) cres" where
  "alloc_option p =
     seq (malloc (wd p)) (\<lambda>(ok, w).
     if \<not> ok then Inr (Null, p\<lparr>wd := w\<rparr>) else
     (let a = brk w in
      Inr (Ref a, p\<lparr>wd := w\<lparr>links := (links w)(Suc a \<mapsto> fresh_node, Suc (Suc a) \<mapsto> fresh_node),
                            brk := Suc (Suc (Suc a))\<rparr>,
                  popts := (popts p)(a \<mapsto> \<lparr>opt_server_list = Ref (Suc a), opt_session_list = Ref (Suc (Suc a)),
                    opt_thread_pool = Null, opt_epoll_fd = 0, opt_proxy_socket = Null\<rparr>)\<rparr>)))"

text \<open>The two loops of \<open>option_free\<close>.\<close>

definition free_server_list :: "ptr \<Rightarrow> world \<Rightarrow> world cres" where
  "free_server_list server_list w =
     seq (addr_of server_list) (\<lambda>lh. list_for_each_entry_safe links free_saddr (Suc (brk w)) lh w)"

definition remove_session_list :: "ptr \<Rightarrow> world \<Rightarrow> world cres" where
  "remove_session_list session_list w =
     seq (addr_of session_list) (\<lambda>lh.
     list_for_each_entry_safe links
       (\<lambda>current_session w. seq (session_remove_from_list (Ref current_session) w) (\<lambda>(_, w). Inr w))
       (Suc (brk w)) lh w)"

definition option_free :: "ptr \<Rightarrow> proc \<Rightarrow> (bool \<times> proc) cres" where
  "option_free target_option p =
     seq (nonnull target_option) (\<lambda>nn. if \<not> nn then Inr (False, p) else
     seq (load_opt target_option p) (\<lambda>d.
     seq (nonnull (opt_thread_pool d)) (\<lambda>nn.
     seq (if nn
          then seq (on_td (thread_pool_free (opt_thread_pool d)) p) (\<lambda>(_, p).
               upd_opt target_option (\<lambda>d. d\<lparr>opt_thread_pool := Null\<rparr>) p)
          else Inr p) (\<lambda>p.
     seq (free_server_list (opt_server_list d) (wd p)) (\<lambda>w.
     seq (remove_session_list (opt_session_list d) w) (\<lambda>w.
     let p = p\<lparr>wd := w\<rparr> in
     seq (if opt_epoll_fd d \<noteq> -1
          then upd_opt target_option (\<lambda>d. d\<lparr>opt_epoll_fd := -1\<rparr>) (p\<lparr>wd := close_fd (opt_epoll_fd d) w\<rparr>)
          else Inr p) (\<lambda>p.
     seq (nonnull (opt_proxy_socket d)) (\<lambda>nn.
     seq (if nn
          then seq (on_wd (socket_free (opt_proxy_socket d)) p) (\<lambda>(_, p).
               upd_opt target_option (\<lambda>d. d\<lparr>opt_proxy_socket := Null\<rparr>) p)
          else Inr p) (\<lambda>p.
     seq (freed (popts p) target_option) (\<lambda>f.
     Inr (True, p\<lparr>popts := f\<rparr>)))))))))))"

definition FTP_COMMAND_PORT :: nat where "FTP_COMMAND_PORT = 21"

definition listen_any :: sockaddr where
  "listen_any = \<lparr>sin_family = AF_INET, sin_port = htons (of_nat FTP_COMMAND_PORT), sin_addr = INADDR_ANY\<rparr>"

text \<open>Every failure after the structure exists frees it and returns NULL.\<close>

definition give_up :: "ptr \<Rightarrow> proc \<Rightarrow> (ptr \<times> proc) cres" where
  "give_up new_option p = seq (option_free new_option p) (\<lambda>(_, p). Inr (Null, p))"

definition listen_for_clients :: "ptr \<Rightarrow> proc \<Rightarrow> (ptr \<times> proc) cres" where
  "listen_for_clients new_option p =
     seq (on_wd (socket_create COMMAND_BUFFER_SIZE (Some listen_any)) p) (\<lambda>(new_proxy_socket, p).
     if new_proxy_socket = Null then give_up new_option p else
     seq (upd_opt new_option (\<lambda>d. d\<lparr>opt_proxy_socket := new_proxy_socket\<rparr>) p) (\<lambda>p.
     seq (fd_of new_proxy_socket (wd p)) (\<lambda>f.
     seq (on_wd (sys_rc (Setsockopt f)) p) (\<lambda>(ret, p).
     if ret < 0 then give_up new_option p else
     seq (on_wd (socket_listen new_proxy_socket 0) p) (\<lambda>(ret, p).
     if ret \<noteq> SOCKET_SUCCESS then give_up new_option p else
     seq (new_fd Epoll_create (wd p)) (\<lambda>(new_epoll, _, w).
     let p = p\<lparr>wd := w\<rparr> in
     if new_epoll < 0 then give_up new_option p else
     seq (upd_opt new_option (\<lambda>d. d\<lparr>opt_epoll_fd := new_epoll\<rparr>) p) (\<lambda>p.
     seq (fd_of new_proxy_socket (wd p)) (\<lambda>f.
     seq (on_wd (epoll_ctl_add new_epoll f) p) (\<lambda>(ret, p).
     if ret < 0 then give_up new_option p else
     Inr (new_option, p))))))))))"

definition option_create :: "int \<Rightarrow> proc \<Rightarrow> (ptr \<times> proc) cres" where
  "option_create num_threads p =
     seq (alloc_option p) (\<lambda>(new_option, p).
     if new_option = Null then Inr (Null, p) else
     seq (load_opt new_option p) (\<lambda>d.
     seq (addr_of (opt_server_list d)) (\<lambda>sl.
     seq (on_links (LIST_INIT sl) (wd p)) (\<lambda>w.
     seq (addr_of (opt_session_list d)) (\<lambda>ss.
     seq (on_links (LIST_INIT ss) w) (\<lambda>w.
     let p = p\<lparr>wd := w\<rparr> in
     seq (on_td (thread_pool_create num_threads) p) (\<lambda>(new_thread_pool, p).
     if new_thread_pool = Null then give_up new_option p else
     seq (upd_opt new_option (\<lambda>d. d\<lparr>opt_thread_pool := new_thread_pool\<rparr>) p) (\<lambda>p.
     listen_for_clients new_option p))))))))"

subsection \<open>Reading lines\<close>

lemma fgets_line_LF:
  "LF \<notin> set l \<Longrightarrow> length l < k \<Longrightarrow> fgets_line k (l @ LF # r) = (l @ [LF], r)"
proof (induction l arbitrary: k)
  case Nil
  then show ?case by (cases k) auto
next
  case (Cons c l)
  then show ?case by (cases k) auto
qed

lemma fgets_LF:
  assumes "LF \<notin> set l" "length l < n - 1"
  shows "fgets n (l @ LF # r) = Some (l @ [LF], r)"
  using fgets_line_LF [OF assms, of r] assms(2) by (simp add: fgets_def)

lemma skip_ws_simps [simp]:
  "skip_ws (CHR '' '' # cs) = skip_ws cs" "skip_ws (TAB # cs) = skip_ws cs"
  "c \<noteq> CHR '' '' \<Longrightarrow> c \<noteq> TAB \<Longrightarrow> skip_ws (c # cs) = Inr (c # cs)"
  by (simp_all add: skip_ws_def skip_whitespace_def)

lemma skip_ws_blanks: "set bl \<subseteq> {CHR '' '', TAB} \<Longrightarrow> skip_ws (bl @ cs) = skip_ws cs"
  by (induction bl) auto

definition key_char :: "char \<Rightarrow> bool" where
  "key_char c \<longleftrightarrow> schar c > 32"

lemma key_char_facts: "key_char c \<Longrightarrow> c \<noteq> CHR '' '' \<and> c \<noteq> TAB \<and> c \<noteq> NUL \<and> c \<noteq> LF \<and> c \<noteq> CR"
  by (auto simp: key_char_def schar_def code_def)

lemma schar_blank: "schar (CHR '' '') = 32"
  by (simp add: schar_def code_def)

lemma read_key_run:
  assumes "\<forall>c \<in> set k. key_char c" "\<not> key_char e" "length key + length k < MAX_CONFIG_KEY_LENGTH"
  shows "read_key key (k @ e # cs) = Inr (key @ k @ [NUL], e # cs)"
  using assms by (induction k arbitrary: key) (auto simp: key_char_def schar_blank)

lemma read_key_long:
  assumes "\<forall>c \<in> set k. key_char c" "MAX_CONFIG_KEY_LENGTH \<le> length key + length k" "length key \<le> MAX_CONFIG_KEY_LENGTH"
  shows "read_key key (k @ e # cs) = Inl (UB Out_of_bounds)"
  using assms
proof (induction k arbitrary: key)
  case Nil
  then show ?case by simp
next
  case (Cons c k)
  then show ?case by (auto simp: key_char_def schar_blank)
qed

text \<open>The name of the only option.\<close>

definition server_key :: string where "server_key = ''server_address''"

lemma server_key_chars: "\<forall>c \<in> set server_key. key_char c" "NUL \<notin> set server_key" "length server_key = 14"
  by (simp_all add: server_key_def key_char_def schar_def code_def)

lemma code_eq_iff: "code a = code b \<longleftrightarrow> a = b"
  by (simp add: code_def)

lemma keycmp_run:
  assumes "\<forall>c \<in> set k. key_char c"
  shows "\<exists>d. keycmp (k @ [NUL]) (c_lit server_key) = Inr d \<and> (d = 0 \<longleftrightarrow> take 14 k = server_key)"
proof -
  have n: "NUL \<notin> set k" using assms key_char_facts by blast
  have sl: "strlen (c_lit server_key) = Inr 14"
    using strlen_lit [OF server_key_chars(2), of "[]"] by (simp add: c_lit_def server_key_chars)
  have gen: "\<exists>d. strncmp (k @ [NUL]) (t @ [NUL]) (length t) = Inr d \<and> (d = 0 \<longleftrightarrow> take (length t) k = t)"
    if "NUL \<notin> set t" "NUL \<notin> set k" for k t
    using that
  proof (induction t arbitrary: k)
    case Nil
    then show ?case by simp
  next
    case (Cons b t)
    show ?case
    proof (cases k)
      case Nil
      then show ?thesis using Cons.prems by (auto simp: code_eq_iff)
    next
      case (Cons a k')
      then show ?thesis using Cons.IH [of k'] Cons.prems by (auto simp: code_eq_iff)
    qed
  qed
  show ?thesis using gen [OF server_key_chars(2) n] sl by (simp add: keycmp_def c_lit_def server_key_chars)
qed

text \<open>The line of a server, and a file of such lines.\<close>

definition server_line :: "in_addr \<times> nat \<Rightarrow> string" where
  "server_line s = server_key @ '' '' @ server_text (fst s) (snd s)"

fun config_text :: "(in_addr \<times> nat) list \<Rightarrow> string" where
  "config_text [] = []"
| "config_text (s # ss) = server_line s @ LF # config_text ss"

definition listed :: "in_addr \<times> nat \<Rightarrow> sockaddr" where
  "listed s = \<lparr>sin_family = AF_INET, sin_port = htons (of_nat (snd s)), sin_addr = fst s\<rparr>"

definition server_ok :: "in_addr \<times> nat \<Rightarrow> bool" where
  "server_ok s \<longleftrightarrow> snd s < 2 ^ 31 \<and> fst s \<noteq> INADDR_NONE"

lemma dec_length: "n < 10 ^ k \<Longrightarrow> 0 < k \<Longrightarrow> length (dec n) \<le> k"
proof (induction n arbitrary: k rule: dec.induct)
  case (1 n)
  show ?case
  proof (cases "n < 10")
    case True
    then show ?thesis using "1.prems"(2) by (simp add: dec_small)
  next
    case False
    obtain j where k: "k = Suc j" using "1.prems"(2) by (cases k) auto
    then have j: "k = Suc j" "0 < j" using "1.prems"(1) False by (cases j; simp)+
    have "n div 10 < 10 ^ j" using "1.prems"(1) j(1) by (simp add: less_mult_imp_div_less mult.commute)
    from "1.IH" [OF False this j(2)] False j(1) show ?thesis by (simp add: dec.simps [of n])
  qed
qed

lemma server_text_facts:
  assumes "server_ok s"
  shows "LF \<notin> set (server_line s)" "length (server_line s) < 4095"
    "\<exists>c cs. server_text (fst s) (snd s) = c # cs \<and> c \<noteq> CHR '' '' \<and> c \<noteq> TAB"
proof -
  have d: "isdigit c \<or> c = CHR ''.'' \<or> c = CHR '':''" if "c \<in> set (server_text (fst s) (snd s))" for c
    using that by (auto simp: server_text_def simp del: inet_ntoa.simps dest: dec_digit inet_ntoa_chars)
  have no: "c \<noteq> LF \<and> c \<noteq> CHR '' '' \<and> c \<noteq> TAB" if "c \<in> set (server_text (fst s) (snd s))" for c
    using d [OF that] by (auto simp: isdigit_def code_def)
  have "LF \<notin> set server_key" using server_key_chars(1) key_char_facts by blast
  then show "LF \<notin> set (server_line s)" using no by (auto simp: server_line_def)
  have "length (dec (snd s)) \<le> 10" using assms by (intro dec_length) (auto simp: server_ok_def)
  then show "length (server_line s) < 4095"
    using inet_ntoa_length [of "fst s"] by (simp add: server_line_def server_text_def server_key_chars)
  obtain c cs where c: "server_text (fst s) (snd s) = c # cs"
    by (cases "server_text (fst s) (snd s)") (auto simp: server_text_def)
  then have "c \<noteq> CHR '' '' \<and> c \<noteq> TAB" using no [of c] by simp
  with c show "\<exists>c cs. server_text (fst s) (snd s) = c # cs \<and> c \<noteq> CHR '' '' \<and> c \<noteq> TAB" by blast
qed

lemma skip_to_key:
  assumes "set bl \<subseteq> {CHR '' '', TAB}" "\<forall>c \<in> set k. key_char c" "k = [] \<longrightarrow> e \<noteq> CHR '' '' \<and> e \<noteq> TAB"
  shows "skip_ws (bl @ k @ e # t) = Inr (k @ e # t)"
proof -
  have "\<exists>c cs. k @ e # t = c # cs \<and> c \<noteq> CHR '' '' \<and> c \<noteq> TAB"
    using assms(2,3) key_char_facts by (cases k) auto
  then show ?thesis using skip_ws_blanks [OF assms(1)] by auto
qed

text \<open>One line: blanks, a key, the rest. \<open>e\<close> is the first character after the key.\<close>

lemma read_options_line:
  assumes "fgets 4096 file = Some (data, rest)" "data @ [NUL] = bl @ k @ e # t"
    and "set bl \<subseteq> {CHR '' '', TAB}" "\<forall>c \<in> set k. key_char c" "\<not> key_char e"
    and "k = [] \<longrightarrow> e \<noteq> CHR '' '' \<and> e \<noteq> TAB"
  shows "read_options opts dest file w =
    (if length k \<ge> MAX_CONFIG_KEY_LENGTH then Inl (UB Out_of_bounds)
     else if take 14 k \<noteq> server_key then Inr (False, w)
     else seq (skip_ws (e # t)) (\<lambda>current_pos. seq (deref opts dest) (\<lambda>d.
          seq (server_insert_address (opt_server_list d) (Some current_pos) w) (\<lambda>(_, w).
          read_options opts dest rest w))))"
proof -
  have skip: "skip_ws (data @ [NUL]) = Inr (k @ e # t)"
    using skip_to_key [OF assms(3,4,6)] by (simp add: assms(2))
  show ?thesis
  proof (cases "length k \<ge> MAX_CONFIG_KEY_LENGTH")
    case True
    then have "read_key [] (k @ e # t) = Inl (UB Out_of_bounds)" using read_key_long [OF assms(4)] by simp
    then show ?thesis using True assms(1) skip by (subst read_options.simps) simp
  next
    case False
    then have key: "read_key [] (k @ e # t) = Inr (k @ [NUL], e # t)" using read_key_run [OF assms(4,5)] by simp
    obtain d where d: "keycmp (k @ [NUL]) (c_lit ''server_address'') = Inr d" "d = 0 \<longleftrightarrow> take 14 k = server_key"
      using keycmp_run [OF assms(4)] by (auto simp: server_key_def)
    show ?thesis using False assms(1) skip key d by (subst read_options.simps) simp
  qed
qed

lemma read_options_server:
  assumes "server_ok s" "opts dp = Some d" "opt_server_list d = Ref lh"
  shows "read_options opts (Ref dp) (server_line s @ LF # rest) w =
    seq (server_insert_address (Ref lh) (Some (server_text (fst s) (snd s) @ [LF, NUL])) w) (\<lambda>(_, w).
    read_options opts (Ref dp) rest w)"
proof -
  note f = server_text_facts [OF assms(1)]
  have g: "fgets 4096 (server_line s @ LF # rest) = Some (server_line s @ [LF], rest)"
    by (rule fgets_LF) (use f in auto)
  obtain c cs where c: "server_text (fst s) (snd s) = c # cs" "c \<noteq> CHR '' ''" "c \<noteq> TAB" using f(3) by blast
  have k: "\<not> key_char (CHR '' '')" by (simp add: key_char_def schar_blank)
  have l: "(server_line s @ [LF]) @ [NUL] = [] @ server_key @ CHR '' '' # server_text (fst s) (snd s) @ [LF, NUL]"
    by (simp add: server_line_def)
  show ?thesis
    using read_options_line [OF g l _ server_key_chars(1) k] c assms(2,3)
    by (simp add: server_key_chars MAX_CONFIG_KEY_LENGTH_def server_key_def)
qed

lemma read_options_end: "read_options opts dest [] w = Inr (True, w)"
  by (subst read_options.simps) (simp add: fgets_def)

lemma read_config:
  assumes "\<forall>s \<in> set ss. server_ok s" "opts dp = Some d" "opt_server_list d = Ref lh"
    and "script w = ms @ rs" "length ms = length ss" "\<forall>m \<in> set ms. rv (m Malloc) \<noteq> 0"
    and "ring (links w) lh xs" "\<forall>x \<in> set (lh # xs). x < brk w"
  shows "\<exists>w'. read_options opts (Ref dp) (config_text ss) w = Inr (True, w') \<and> script w' = rs \<and>
    ring (links w') lh (rev [brk w ..< brk w + length ss] @ xs) \<and>
    (\<forall>a < brk w. saddrs w' a = saddrs w a) \<and>
    (\<forall>i < length ss. saddrs w' (brk w + i) = Some (listed (ss ! i))) \<and> brk w' = brk w + length ss \<and>
    (\<forall>x < brk w. x \<notin> set (lh # xs) \<longrightarrow> links w' x = links w x)"
  using assms
proof (induction ss arbitrary: w ms xs)
  case Nil
  then show ?case by (simp add: read_options_end)
next
  case (Cons s ss)
  obtain m ms' where ms: "ms = m # ms'" using Cons.prems(5) by (cases ms) auto
  have ok: "server_ok s" using Cons.prems(1) by simp
  obtain w1 where w1: "server_insert_address (Ref lh) (Some (server_text (fst s) (snd s) @ [LF, NUL])) w = Inr (SERVER_SUCCESS, w1)"
    "ring (links w1) lh (brk w # xs)" "script w1 = ms' @ rs" "brk w1 = Suc (brk w)"
    "saddrs w1 = (saddrs w)(brk w \<mapsto> listed s)" "\<forall>x. x \<notin> set (lh # brk w # xs) \<longrightarrow> links w1 x = links w x"
    using server_insert_address_run [of "snd s" "fst s" w m "ms' @ rs" lh xs "[LF, NUL]"] ok Cons.prems(4,6,7,8)
    by (auto simp: server_ok_def ms listed_def)
  have run: "read_options opts (Ref dp) (config_text (s # ss)) w = read_options opts (Ref dp) (config_text ss) w1"
    using read_options_server [where opts = opts and dp = dp, OF ok Cons.prems(2,3)] w1(1) by simp
  have below: "\<forall>x \<in> set (lh # brk w # xs). x < brk w1" using Cons.prems(8) w1(4) by (auto simp: less_Suc_eq)
  obtain w' where w': "read_options opts (Ref dp) (config_text ss) w1 = Inr (True, w')" "script w' = rs"
    "ring (links w') lh (rev [brk w1 ..< brk w1 + length ss] @ brk w # xs)"
    "\<forall>a < brk w1. saddrs w' a = saddrs w1 a"
    "\<forall>i < length ss. saddrs w' (brk w1 + i) = Some (listed (ss ! i))" "brk w' = brk w1 + length ss"
    "\<forall>x < brk w1. x \<notin> set (lh # brk w # xs) \<longrightarrow> links w' x = links w1 x"
    using Cons.IH [where w = w1 and ms = ms', OF _ Cons.prems(2,3) w1(3) _ _ w1(2) below] Cons.prems(1,5,6) by (auto simp: ms)
  have up: "rev [brk w ..< brk w + length (s # ss)] = rev [brk w1 ..< brk w1 + length ss] @ [brk w]"
  proof -
    have "[brk w ..< brk w + length (s # ss)] = brk w # [Suc (brk w) ..< Suc (brk w) + length ss]"
      by (subst upt_conv_Cons) auto
    then show ?thesis by (simp only: w1(4) rev.simps)
  qed
  have "\<forall>i < length (s # ss). saddrs w' (brk w + i) = Some (listed ((s # ss) ! i))"
  proof (intro allI impI)
    fix i assume i: "i < length (s # ss)"
    show "saddrs w' (brk w + i) = Some (listed ((s # ss) ! i))"
      using i w'(4,5) w1(4,5) by (cases i) auto
  qed
  moreover have "\<forall>a < brk w. saddrs w' a = saddrs w a" using w'(4) w1(4,5) by auto
  moreover have "\<forall>x < brk w. x \<notin> set (lh # xs) \<longrightarrow> links w' x = links w x" using w'(7) w1(4,6) by auto
  moreover have "brk w' = brk w + length (s # ss)" using w'(6) w1(4) by simp
  ultimately show ?case using run w' up by auto
qed

subsection \<open>Properties of the configuration file\<close>

lemma good_config:
  assumes "\<forall>s \<in> set ss. server_ok s" "ss \<noteq> []" "popts p dp = Some d" "opt_server_list d = Ref lh"
    and "script (wd p) = ms @ rs" "length ms = length ss" "\<forall>m \<in> set ms. rv (m Malloc) \<noteq> 0"
    and "ring (links (wd p)) lh xs" "\<forall>x \<in> set (lh # xs). x < brk (wd p)"
  shows "\<exists>w'. get_option_from_file (Ref dp) (Some (config_text ss)) p = Inr (True, p\<lparr>wd := w'\<rparr>) \<and>
    read_options (popts p) (Ref dp) (config_text ss) (wd p) = Inr (True, w') \<and>
    ring (links w') lh (rev [brk (wd p) ..< brk (wd p) + length ss] @ xs) \<and>
    (\<forall>i < length ss. saddrs w' (brk (wd p) + i) = Some (listed (ss ! i))) \<and>
    brk w' = brk (wd p) + length ss \<and> (\<forall>x < brk (wd p). x \<notin> set (lh # xs) \<longrightarrow> links w' x = links (wd p) x) \<and>
    (\<exists>a. server_get_available_address (Ref lh) w' = Inr a \<and> load_saddr a w' = Inr (listed (last ss)))"
proof -
  let ?b = "brk (wd p)" and ?n = "length ss"
  obtain w' where w': "read_options (popts p) (Ref dp) (config_text ss) (wd p) = Inr (True, w')"
    "ring (links w') lh (rev [?b ..< ?b + ?n] @ xs)" "\<forall>i < ?n. saddrs w' (?b + i) = Some (listed (ss ! i))"
    "brk w' = brk (wd p) + length ss" "\<forall>x < brk (wd p). x \<notin> set (lh # xs) \<longrightarrow> links w' x = links (wd p) x"
    using read_config [where opts = "popts p" and dp = dp and w = "wd p", OF assms(1,3-9)] by blast
  have n: "?b + ?n = Suc (?b + (?n - 1))" "?n - 1 < ?n" using assms(2) by (cases ss; simp)+
  have "rev [?b ..< ?b + ?n] = (?b + (?n - 1)) # rev [?b ..< ?b + (?n - 1)]"
    unfolding n(1) by simp
  then have "server_get_available_address (Ref lh) w' = Inr (Ref (?b + (?n - 1)))"
    using server_get_available_address_run [OF w'(2)] by simp
  moreover have "load_saddr (Ref (?b + (?n - 1))) w' = Inr (listed (last ss))"
    using w'(3) n(2) assms(2) by (simp add: load_saddr_def last_conv_nth)
  ultimately show ?thesis using w' by (auto simp: get_option_from_file_def on_wd_def)
qed

text \<open>C23: A configuration file with one well-formed line per server is read to its end: the call
  succeeds, and the server list has one new element for every line, with the address and port of that
  line, the last line in front of the list. The server that \<open>server_get_available_address\<close> gives
  out from then on is the one of the last line.\<close>

theorem config_file_read:
  assumes "\<forall>s \<in> set ss. server_ok s" "ss \<noteq> []" "popts p dp = Some d" "opt_server_list d = Ref lh"
    and "script (wd p) = ms @ rs" "length ms = length ss" "\<forall>m \<in> set ms. rv (m Malloc) \<noteq> 0"
    and "ring (links (wd p)) lh xs" "\<forall>x \<in> set (lh # xs). x < brk (wd p)"
  shows "\<exists>w'. get_option_from_file (Ref dp) (Some (config_text ss)) p = Inr (True, p\<lparr>wd := w'\<rparr>) \<and>
    ring (links w') lh (rev [brk (wd p) ..< brk (wd p) + length ss] @ xs) \<and>
    (\<forall>i < length ss. saddrs w' (brk (wd p) + i) = Some (listed (ss ! i))) \<and>
    (\<exists>a. server_get_available_address (Ref lh) w' = Inr a \<and> load_saddr a w' = Inr (listed (last ss)))"
  using good_config [OF assms] by blast

definition demo_option :: option_s where
  "demo_option = \<lparr>opt_server_list = Ref 5, opt_session_list = Ref 6, opt_thread_pool = Null, opt_epoll_fd = 3,
     opt_proxy_socket = Null\<rparr>"

definition demo_proc :: "(call \<Rightarrow> reply) list \<Rightarrow> proc" where
  "demo_proc rs = \<lparr>wd = demo rs, td = demo_tmem, popts = [0 \<mapsto> demo_option]\<rparr>"

lemma demo_proc_facts [simp]:
  "wd (demo_proc rs) = demo rs"
  "popts (demo_proc rs) 0 = Some demo_option" "opt_server_list demo_option = Ref 5"
  by (simp_all add: demo_proc_def demo_option_def)

theorem config_file_read_witness:
  "\<exists>w'. get_option_from_file (Ref 0)
       (Some (''server_address 10.0.0.3:21'' @ [LF] @ ''server_address 10.0.0.4:2121'' @ [LF])) (demo_proc [answer 1, answer 1])
     = Inr (True, (demo_proc [answer 1, answer 1])\<lparr>wd := w'\<rparr>) \<and>
     load_saddr (Ref 11) w' = Inr \<lparr>sin_family = AF_INET, sin_port = htons 2121, sin_addr = (10, 0, 0, 4)\<rparr>"
proof -
  let ?ss = "[((10, 0, 0, 3), 21), ((10, 0, 0, 4), 2121)] :: (in_addr \<times> nat) list"
  have file_text: "config_text ?ss = ''server_address 10.0.0.3:21'' @ [LF] @ ''server_address 10.0.0.4:2121'' @ [LF]"
    by (simp add: server_line_def server_key_def server_text_def dec.simps digit_chars)
  let ?p = "demo_proc [answer 1, answer 1]"
  have "\<exists>w'. get_option_from_file (Ref 0) (Some (config_text ?ss)) ?p = Inr (True, ?p\<lparr>wd := w'\<rparr>) \<and>
    ring (links w') 5 (rev [brk (wd ?p) ..< brk (wd ?p) + length ?ss] @ [8]) \<and>
    (\<forall>i < length ?ss. saddrs w' (brk (wd ?p) + i) = Some (listed (?ss ! i))) \<and>
    (\<exists>a. server_get_available_address (Ref 5) w' = Inr a \<and> load_saddr a w' = Inr (listed (last ?ss)))"
    by (rule config_file_read [where d = demo_option and ms = "[answer 1, answer 1]" and rs = "[]"])
      (simp_all add: server_ok_def INADDR_NONE_def answer_def demo_rings)
  then obtain w' where w': "get_option_from_file (Ref 0) (Some (config_text ?ss)) ?p = Inr (True, ?p\<lparr>wd := w'\<rparr>)"
    "\<forall>i < length ?ss. saddrs w' (10 + i) = Some (listed (?ss ! i))"
    by (auto simp del: config_text.simps)
  from w'(2) [rule_format, of 1] have "load_saddr (Ref 11) w' = Inr \<lparr>sin_family = AF_INET, sin_port = htons 2121, sin_addr = (10, 0, 0, 4)\<rparr>"
    by (simp add: load_saddr_def listed_def)
  with w'(1) show ?thesis unfolding file_text by blast
qed

lemma bad_line:
  assumes "fgets 4096 file = Some (data, rest)" "data @ [NUL] = bl @ k @ e # t"
    and "set bl \<subseteq> {CHR '' '', TAB}" "\<forall>c \<in> set k. key_char c" "\<not> key_char e"
    and "k = [] \<longrightarrow> e \<noteq> CHR '' '' \<and> e \<noteq> TAB"
    and "length k \<ge> MAX_CONFIG_KEY_LENGTH \<or> take 14 k \<noteq> server_key"
  shows "get_option_from_file dest (Some file) p =
    (if length k \<ge> MAX_CONFIG_KEY_LENGTH then Inl (UB Out_of_bounds) else Inr (False, p))"
  using read_options_line [OF assms(1-6), of "popts p" dest "wd p"] assms(7)
  by (auto simp: get_option_from_file_def on_wd_def)



subsection \<open>Starting up\<close>

lemma LIST_INIT_node: "h l = Some n \<Longrightarrow> LIST_INIT l h = Inr (h(l \<mapsto> \<lparr>nxt = l, prv = l\<rparr>))"
  by (cases n) (simp add: LIST_INIT_def set_n_def set_p_def)

text \<open>The world after the structure was allocated and its two lists were initialised.\<close>

definition with_lists :: "world \<Rightarrow> (call \<Rightarrow> reply) list \<Rightarrow> world" where
  "with_lists w rs = w\<lparr>script := rs, trace := Malloc # trace w, brk := brk w + 3,
     links := (links w)(Suc (brk w) \<mapsto> \<lparr>nxt = Suc (brk w), prv = Suc (brk w)\<rparr>,
                        Suc (Suc (brk w)) \<mapsto> \<lparr>nxt = Suc (Suc (brk w)), prv = Suc (Suc (brk w))\<rparr>)\<rparr>"

definition first_option :: "nat \<Rightarrow> option_s" where
  "first_option a = \<lparr>opt_server_list = Ref (Suc a), opt_session_list = Ref (Suc (Suc a)),
     opt_thread_pool = Null, opt_epoll_fd = 0, opt_proxy_socket = Null\<rparr>"

lemma first_option_simps [simp]:
  "opt_server_list (first_option a) = Ref (Suc a)" "opt_session_list (first_option a) = Ref (Suc (Suc a))"
  "opt_thread_pool (first_option a) = Null" "opt_epoll_fd (first_option a) = 0" "opt_proxy_socket (first_option a) = Null"
  by (simp_all add: first_option_def)

lemma with_lists_simps [simp]:
  "script (with_lists w rs) = rs" "trace (with_lists w rs) = Malloc # trace w" "brk (with_lists w rs) = brk w + 3"
  "socks (with_lists w rs) = socks w" "open_fds (with_lists w rs) = open_fds w"
  "epoll_regs (with_lists w rs) = epoll_regs w" "strict_epoll (with_lists w rs) = strict_epoll w"
  "ring (links (with_lists w rs)) (Suc (brk w)) []" "ring (links (with_lists w rs)) (Suc (Suc (brk w))) []"
  "links (with_lists w rs) (Suc (brk w)) = Some \<lparr>nxt = Suc (brk w), prv = Suc (brk w)\<rparr>"
  "links (with_lists w rs) (Suc (Suc (brk w))) = Some \<lparr>nxt = Suc (Suc (brk w)), prv = Suc (Suc (brk w))\<rparr>"
  by (simp_all add: with_lists_def ring_empty_iff nx_def pv_def)

lemma option_create_start:
  assumes "script (wd p) = om # rs" "rv (om Malloc) \<noteq> 0"
  shows "option_create n p =
    (let p1 = p\<lparr>popts := (popts p)(brk (wd p) \<mapsto> first_option (brk (wd p))), wd := with_lists (wd p) rs\<rparr>;
         new_option = Ref (brk (wd p)) in
     seq (on_td (thread_pool_create n) p1) (\<lambda>(new_thread_pool, p).
     if new_thread_pool = Null then give_up new_option p else
     seq (upd_opt new_option (\<lambda>d. d\<lparr>opt_thread_pool := new_thread_pool\<rparr>) p) (listen_for_clients new_option)))"
proof -
  have w: "(wd p)\<lparr>script := rs, trace := Malloc # trace (wd p), brk := Suc (Suc (Suc (brk (wd p)))),
      links := (links (wd p))(Suc (brk (wd p)) \<mapsto> \<lparr>nxt = Suc (brk (wd p)), prv = Suc (brk (wd p))\<rparr>,
        Suc (Suc (brk (wd p))) \<mapsto> \<lparr>nxt = Suc (Suc (brk (wd p))), prv = Suc (Suc (brk (wd p)))\<rparr>)\<rparr> = with_lists (wd p) rs"
    by (simp add: with_lists_def)
  show ?thesis
    using assms
    by (simp add: option_create_def alloc_option_def malloc_def sys_def load_opt_def on_links_def LIST_INIT_node
        fun_upd_twist w first_option_def [symmetric] Let_def)
qed

text \<open>C39: When the first allocation of the thread pool is refused, \<open>option_create\<close> returns NULL and frees
  the structure, but on its way closes descriptor 0, the standard input: the epoll descriptor of the
  zeroed structure is 0, and \<open>option_free\<close> takes only \<open>-1\<close> for "none".\<close>

theorem option_create_closes_stdin:
  assumes "script (wd p) = om # rs" "rv (om Malloc) \<noteq> 0" "mallocs (td p) = False # bs"
    and "popts p (brk (wd p)) = None"
  shows "\<exists>p'. option_create n p = Inr (Null, p') \<and> popts p' = popts p \<and>
    trace (wd p') = Close 0 # Malloc # trace (wd p) \<and> open_fds (wd p') = open_fds (wd p) - {0}"
proof -
  let ?a = "brk (wd p)"
  let ?w = "with_lists (wd p) rs"
  have pool: "thread_pool_create n (td p) = Inr (Null, (td p)\<lparr>mallocs := bs\<rparr>)"
    using assms(3) by (simp add: thread_pool_create_def tmalloc_def Let_def)
  have servers: "free_server_list (Ref (Suc ?a)) ?w = Inr ?w"
    by (simp add: free_server_list_def list_for_each_entry_safe_empty)
  have sessions: "remove_session_list (Ref (Suc (Suc ?a))) ?w = Inr ?w"
    by (simp add: remove_session_list_def list_for_each_entry_safe_empty)
  have undo: "(popts p)(?a := None) = popts p" using assms(4) by auto
  show ?thesis
    by (simp add: option_create_start [OF assms(1,2)] on_td_def pool give_up_def option_free_def load_opt_def upd_opt_def
        servers sessions close_fd_def freed_def undo Let_def)
qed

theorem option_create_closes_stdin_witness:
  "\<exists>p'. option_create 10 ((demo_proc [answer 1])\<lparr>td := demo_tmem\<lparr>mallocs := [False]\<rparr>\<rparr>) = Inr (Null, p') \<and>
     Close 0 \<in> set (trace (wd p'))"
  using option_create_closes_stdin [of "(demo_proc [answer 1])\<lparr>td := demo_tmem\<lparr>mallocs := [False]\<rparr>\<rparr>" "answer 1" "[]" "[]" 10]
  by (fastforce simp: demo_proc_def answer_def)

text \<open>Are the twelve calls granted that make the proxy socket \<open>k\<close>, bind it, listen on it and put it in the
  new epoll set \<open>e\<close>?\<close>

definition start_granted :: "world \<Rightarrow> int \<Rightarrow> int \<Rightarrow> (call \<Rightarrow> reply) list \<Rightarrow> bool" where
  "start_granted w k e calls =
     (length calls = 12 \<and> rv ((calls ! 0) Malloc) \<noteq> 0 \<and> rv ((calls ! 1) Socket) = k \<and> 0 \<le> k \<and>
      k \<notin> open_fds w \<and> k \<notin> epoll_regs w \<and> init_calls_ok k (take 5 (drop 2 calls)) \<and>
      0 \<le> rv ((calls ! 7) (Setsockopt k)) \<and> 0 \<le> rv ((calls ! 8) (Bind k listen_any)) \<and>
      0 \<le> rv ((calls ! 9) (Listen k 0)) \<and> rv ((calls ! 10) Epoll_create) = e \<and> 0 \<le> e \<and>
      e \<notin> open_fds w \<and> e \<noteq> k \<and> 0 \<le> rv ((calls ! 11) (Epoll_add e k)))"

lemma length_12:
  "length xs = 12 \<longleftrightarrow> (\<exists>a b c d e f g h i j k l. xs = [a, b, c, d, e, f, g, h, i, j, k, l])"
  by (auto simp: eval_nat_numeral length_Suc_conv)

lemma listen_for_clients_run:
  assumes "popts p a = Some d" "script (wd p) = calls @ rs" "start_granted (wd p) k e calls"
  shows "\<exists>w'. listen_for_clients (Ref a) p = Inr (Ref a, p\<lparr>
      popts := (popts p)(a \<mapsto> d\<lparr>opt_proxy_socket := Ref (brk (wd p)), opt_epoll_fd := e\<rparr>), wd := w'\<rparr>) \<and>
    socks w' = (socks (wd p))(brk (wd p) \<mapsto> init_socket k COMMAND_BUFFER_SIZE listen_any) \<and>
    links w' = links (wd p) \<and> open_fds w' = {k, e} \<union> open_fds (wd p) \<and>
    epoll_regs w' = insert k (epoll_regs (wd p)) \<and> script w' = rs \<and> brk w' = Suc (brk (wd p)) \<and>
    saddrs w' = saddrs (wd p) \<and> Listen k 0 \<in> set (trace w')"
proof -
  let ?w = "wd p"
  let ?t = "init_socket k COMMAND_BUFFER_SIZE listen_any"
  obtain m f o1 o2 b gf l so bi li ec ea where calls: "calls = [m, f, o1, o2, b, gf, l, so, bi, li, ec, ea]"
    using assms(3) by (auto simp: start_granted_def length_12)
  have c: "script ?w = [m, f, o1, o2, b, gf, l] @ [so, bi, li, ec, ea] @ rs" "rv (m Malloc) \<noteq> 0" "rv (f Socket) = k"
    "0 \<le> k" "k \<notin> open_fds ?w" "k \<notin> epoll_regs ?w" "init_calls_ok k [o1, o2, b, gf, l]"
    "0 \<le> rv (so (Setsockopt k))" "0 \<le> rv (bi (Bind k listen_any))" "0 \<le> rv (li (Listen k 0))"
    "rv (ec Epoll_create) = e" "0 \<le> e" "e \<notin> open_fds ?w" "e \<noteq> k" "0 \<le> rv (ea (Epoll_add e k))"
    using assms(2,3) by (simp_all add: start_granted_def calls eval_nat_numeral)
  have a: "sk_address ?t = listen_any" by (simp add: init_socket_def listen_any_def)
  have create: "socket_create COMMAND_BUFFER_SIZE (Some listen_any) ?w = Inr (Ref (brk ?w),
    ?w\<lparr>socks := (socks ?w)(brk ?w \<mapsto> ?t), brk := Suc (brk ?w), script := [so, bi, li, ec, ea] @ rs,
      open_fds := insert k (open_fds ?w), sent := (sent ?w)(k := []),
      trace := init_calls k @ [Socket, Malloc] @ trace ?w\<rparr>)"
    using socket_create_run [OF c(1,2), of COMMAND_BUFFER_SIZE listen_any] c by (simp add: COMMAND_BUFFER_SIZE_def)
  show ?thesis
    using assms(1) c(4-)
    by (simp add: listen_for_clients_def on_wd_def create upd_opt_def load_opt_def fd_of_def load_socket_def sys_rc_def
        sys_def socket_listen_def a new_fd_def epoll_ctl_add_def Let_def)
      (intro exI conjI, rule refl, simp_all add: insert_commute)
qed

text \<open>The options as they are after start-up.\<close>

definition ready_option :: "nat \<Rightarrow> nat \<Rightarrow> int \<Rightarrow> option_s" where
  "ready_option a pool e = \<lparr>opt_server_list = Ref (a + 1), opt_session_list = Ref (a + 2), opt_thread_pool = Ref pool,
     opt_epoll_fd = e, opt_proxy_socket = Ref (a + 3)\<rparr>"

lemma option_create_run:
  assumes "script (wd p) = om # calls @ rs" "rv (om Malloc) \<noteq> 0" "start_granted (wd p) k e calls"
    and "mallocs (td p) = replicate (4 + n) True @ bs" "a = brk (wd p)"
  shows "\<exists>p' pool q. option_create (int n) p = Inr (Ref a, p') \<and> popts p' = (popts p)(a \<mapsto> ready_option a pool e) \<and>
    ring (links (wd p')) (a + 1) [] \<and> ring (links (wd p')) (a + 2) [] \<and>
    socks (wd p') = (socks (wd p))(a + 3 \<mapsto> init_socket k COMMAND_BUFFER_SIZE listen_any) \<and>
    epoll_regs (wd p') = insert k (epoll_regs (wd p)) \<and> open_fds (wd p') = {k, e} \<union> open_fds (wd p) \<and>
    Listen k 0 \<in> set (trace (wd p')) \<and> script (wd p') = rs \<and> brk (wd p') = a + 4 \<and>
    threads_ok pool q n n (td p') \<and> queue_ok q (td p') [] \<and> mallocs (td p') = bs"
proof -
  obtain pool q m' where m': "thread_pool_create (int n) (td p) = Inr (Ref pool, m')" "threads_ok pool q n n m'" "queue_ok q m' []"
    "mallocs m' = bs"
    using thread_pool_create_run [OF assms(4)] by blast
  let ?d = "(first_option a)\<lparr>opt_thread_pool := Ref pool\<rparr>"
  let ?p = "p\<lparr>wd := with_lists (wd p) (calls @ rs), td := m', popts := (popts p)(a \<mapsto> ?d)\<rparr>"
  have "start_granted (wd ?p) k e calls" using assms(3) by (simp add: start_granted_def)
  then obtain w' where w': "listen_for_clients (Ref a) ?p = Inr (Ref a, ?p\<lparr>
      popts := (popts ?p)(a \<mapsto> ?d\<lparr>opt_proxy_socket := Ref (brk (wd ?p)), opt_epoll_fd := e\<rparr>), wd := w'\<rparr>)"
    "socks w' = (socks (wd ?p))(brk (wd ?p) \<mapsto> init_socket k COMMAND_BUFFER_SIZE listen_any)"
    "links w' = links (wd ?p)" "open_fds w' = {k, e} \<union> open_fds (wd ?p)" "script w' = rs" "brk w' = Suc (brk (wd ?p))"
    "epoll_regs w' = insert k (epoll_regs (wd ?p))" "Listen k 0 \<in> set (trace w')"
    using listen_for_clients_run [of ?p a ?d calls rs k e] by auto
  have "option_create (int n) p = listen_for_clients (Ref a) ?p"
    by (simp add: option_create_start [OF assms(1,2)] on_td_def m'(1) upd_opt_def load_opt_def assms(5) Let_def)
  then show ?thesis using w' m'(2-4) assms(5) with_lists_simps(8,9) [of "wd p" "calls @ rs"]
    by (auto simp: first_option_def ready_option_def eval_nat_numeral)
qed

text \<open>C26: When everything is granted, \<open>option_create\<close> gives an option structure with two empty lists, a
  thread pool with one thread structure per worker and an empty queue, and a proxy socket on port 21
  of every address, listening and registered with the new epoll descriptor, which is the one the structure
  records.\<close>

theorem option_create_ready:
  assumes "script (wd p) = om # calls @ rs" "rv (om Malloc) \<noteq> 0" "start_granted (wd p) k e calls"
    and "mallocs (td p) = replicate (4 + n) True @ bs" "a = brk (wd p)"
  shows "\<exists>p' pool q. option_create (int n) p = Inr (Ref a, p') \<and>
    popts p' a = Some \<lparr>opt_server_list = Ref (a + 1), opt_session_list = Ref (a + 2), opt_thread_pool = Ref pool,
      opt_epoll_fd = e, opt_proxy_socket = Ref (a + 3)\<rparr> \<and>
    ring (links (wd p')) (a + 1) [] \<and> ring (links (wd p')) (a + 2) [] \<and>
    socks (wd p') (a + 3) = Some (init_socket k COMMAND_BUFFER_SIZE listen_any) \<and>
    epoll_regs (wd p') = insert k (epoll_regs (wd p)) \<and> open_fds (wd p') = {k, e} \<union> open_fds (wd p) \<and>
    Listen k 0 \<in> set (trace (wd p')) \<and> threads_ok pool q n n (td p') \<and> queue_ok q (td p') []"
  using option_create_run [OF assms] by (auto simp: ready_option_def)

theorem option_create_ready_witness:
  "\<exists>p' a. option_create 10 ((demo_proc (answer 1 # [answer 1, answer 7, answer 0, answer 0, answer 1, answer 0, answer 0,
       answer 0, answer 0, answer 0, answer 8, answer 0]))\<lparr>td := demo_tmem\<lparr>mallocs := replicate 14 True\<rparr>\<rparr>) = Inr (Ref a, p') \<and>
     open_fds (wd p') = {3, 4, 5, 7, 8}"
proof -
  let ?c = "[answer 1, answer 7, answer 0, answer 0, answer 1, answer 0, answer 0,
       answer 0, answer 0, answer 0, answer 8, answer 0]"
  let ?p = "(demo_proc (answer 1 # ?c))\<lparr>td := demo_tmem\<lparr>mallocs := replicate 14 True\<rparr>\<rparr>"
  have "start_granted (wd ?p) 7 8 ?c"
    by (simp add: start_granted_def answer_def init_calls_ok_def demo_def boot_def)
  then show ?thesis
    using option_create_ready [of ?p "answer 1" ?c "[]" 7 8 10 "[]" 10]
    by (fastforce simp: answer_def demo_tmem_def demo_def boot_def)
qed

subsection \<open>Releasing the options\<close>

lemma free_saddr_run:
  "saddrs w x \<noteq> None \<Longrightarrow> free_saddr x w = Inr (w\<lparr>saddrs := (saddrs w)(x := None), links := (links w)(x := None)\<rparr>)"
  by (auto simp: free_saddr_def freed_def)

lemma free_servers_from:
  assumes "ring (links w) lh xs" "\<forall>x \<in> set xs. saddrs w x \<noteq> None" "length xs < fuel" "xs \<noteq> [] \<longrightarrow> bk = hd (tl xs @ [lh])"
  shows "list_for_each_entry_safe_from links free_saddr fuel lh (hd (xs @ [lh])) bk w =
    Inr (w\<lparr>saddrs := (\<lambda>a. if a \<in> set xs then None else saddrs w a), links := (\<lambda>a. if a \<in> set xs then None else links w a)\<rparr>)"
proof -
  have "linked (links w) (xs @ [lh])" "distinct (lh # xs)" "lh \<in> dom (links w)"
    using assms(1) ring_dom [OF assms(1)] by (auto simp: ring_def) (cases xs; auto)
  then show ?thesis using assms(2-)
  proof (induction xs arbitrary: w fuel bk)
    case Nil
    then show ?case by (cases fuel) auto
  next
    case (Cons x xs)
    obtain f where f: "fuel = Suc f" using Cons.prems(5) by (cases fuel) auto
    let ?w = "w\<lparr>saddrs := (saddrs w)(x := None), links := (links w)(x := None)\<rparr>"
    have bk: "bk = hd (xs @ [lh])" using Cons.prems(6) by simp
    have x: "x \<noteq> lh" "x \<notin> set xs" using Cons.prems(2) by auto
    have "linked (links w) (xs @ [lh])" using Cons.prems(1) by (cases xs) auto
    moreover have "set (tl (xs @ [lh])) \<subseteq> insert lh (set xs)" by (cases xs) auto
    ultimately have lk: "linked (links ?w) (xs @ [lh])"
      by (elim linked_frame) (use x in \<open>auto simp: nx_def pv_def dest: in_set_butlastD\<close>)
    have dom: "lh \<in> dom (links ?w)" using Cons.prems(3) x by auto
    have "bk \<in> dom (links ?w)"
    proof (cases xs)
      case Nil
      then show ?thesis using dom bk by simp
    next
      case (Cons y ys)
      then have "nx (links ?w) y = Some (hd (ys @ [lh]))" using lk by (cases ys) auto
      then have "y \<in> dom (links ?w)" by (rule nx_dom)
      then show ?thesis using bk Cons by simp
    qed
    then obtain b where b: "nx (links ?w) bk = Some b" by (metis dom_nx)
    have next_ok: "xs \<noteq> [] \<longrightarrow> b = hd (tl xs @ [lh])"
      using b lk bk by (cases xs; cases "tl xs"; auto)
    have "list_for_each_entry_safe_from links free_saddr f lh (hd (xs @ [lh])) b ?w =
      Inr (?w\<lparr>saddrs := (\<lambda>a. if a \<in> set xs then None else saddrs ?w a), links := (\<lambda>a. if a \<in> set xs then None else links ?w a)\<rparr>)"
      by (rule Cons.IH [OF lk _ dom _ _ next_ok]) (use Cons.prems f x in auto)
    moreover have "get_n (links ?w) bk = Inr b" by (rule get_n_Some [OF b])
    ultimately show ?case
      using f x Cons.prems(4) bk free_saddr_run [of w x]
      by (simp add: LIST_ELEM_def fun_eq_iff)
  qed
qed

lemma free_server_list_run:
  assumes "ring (links w) lh xs" "\<forall>x \<in> set xs. saddrs w x \<noteq> None" "\<forall>x \<in> set xs. x < brk w"
  shows "free_server_list (Ref lh) w =
    Inr (w\<lparr>saddrs := (\<lambda>a. if a \<in> set xs then None else saddrs w a), links := (\<lambda>a. if a \<in> set xs then None else links w a)\<rparr>)"
proof -
  have d: "distinct xs" and l: "linked (links w) (lh # xs @ [lh])" using assms(1) by (auto simp: ring_def)
  have n: "length xs < Suc (brk w)" using distinct_bounded_length [OF d assms(3)] by simp
  have first: "get_n (links w) lh = Inr (hd (xs @ [lh]))"
    using l by (cases xs) auto
  have "hd (xs @ [lh]) \<in> dom (links w)" using ring_dom [OF assms(1)] by (cases xs) auto
  then obtain b where b: "nx (links w) (hd (xs @ [lh])) = Some b" by (metis dom_nx)
  have "xs \<noteq> [] \<longrightarrow> b = hd (tl xs @ [lh])" using b l by (cases xs; cases "tl xs"; auto)
  from free_servers_from [OF assms(1,2) n this] b first show ?thesis
    by (simp add: free_server_list_def list_for_each_entry_safe_def LIST_ELEM_def)
qed

text \<open>An option structure that is set up, with the servers \<open>xs\<close> and no session yet.\<close>

definition set_up :: "proc \<Rightarrow> nat \<Rightarrow> option_s \<Rightarrow> nat list \<Rightarrow> nat \<Rightarrow> socket \<Rightarrow> bool" where
  "set_up p a d xs s sk \<longleftrightarrow> popts p a = Some d \<and> opt_proxy_socket d = Ref s \<and> socks (wd p) s = Some sk \<and>
     opt_epoll_fd d \<noteq> -1 \<and> (\<exists>lh sh. opt_server_list d = Ref lh \<and> opt_session_list d = Ref sh \<and>
       ring (links (wd p)) lh xs \<and> ring (links (wd p)) sh [] \<and> sh \<notin> set (lh # xs)) \<and>
     (\<forall>x \<in> set xs. saddrs (wd p) x \<noteq> None \<and> x < brk (wd p))"

definition without_servers :: "nat list \<Rightarrow> world \<Rightarrow> world" where
  "without_servers xs w = w\<lparr>saddrs := (\<lambda>a. if a \<in> set xs then None else saddrs w a),
     links := (\<lambda>a. if a \<in> set xs then None else links w a)\<rparr>"

lemma without_servers_simps [simp]:
  "socks (without_servers xs w) = socks w" "open_fds (without_servers xs w) = open_fds w"
  "saddrs (without_servers xs w) a = (if a \<in> set xs then None else saddrs w a)" "brk (without_servers xs w) = brk w"
  "links (without_servers xs w) a = (if a \<in> set xs then None else links w a)"
  "epoll_regs (without_servers xs w) = epoll_regs w"
  by (simp_all add: without_servers_def)

lemma option_free_run:
  assumes "set_up p a d xs s sk" "opt_thread_pool d = Ref q" "thread_pool_free (Ref q) (td p) = Inr (r, m')"
  shows "option_free (Ref a) p = Inr (True, p\<lparr>td := m', popts := (popts p)(a := None),
    wd := dropped s sk (close_fd (opt_epoll_fd d) (without_servers xs (wd p)))\<rparr>)"
proof -
  obtain lh sh where d: "popts p a = Some d" "opt_proxy_socket d = Ref s" "socks (wd p) s = Some sk" "opt_epoll_fd d \<noteq> -1"
    "opt_server_list d = Ref lh" "opt_session_list d = Ref sh" and r: "ring (links (wd p)) lh xs" "ring (links (wd p)) sh []"
    "sh \<notin> set (lh # xs)" and x: "\<forall>x \<in> set xs. saddrs (wd p) x \<noteq> None" "\<forall>x \<in> set xs. x < brk (wd p)"
    using assms(1) unfolding set_up_def by auto
  have servers: "free_server_list (Ref lh) (wd p) = Inr (without_servers xs (wd p))"
    using free_server_list_run [OF r(1) x] by (simp add: without_servers_def)
  have "ring (links (without_servers xs (wd p))) sh []"
    using r(2,3) by (simp add: ring_empty_iff nx_def pv_def)
  then have sessions: "remove_session_list (Ref sh) (without_servers xs (wd p)) = Inr (without_servers xs (wd p))"
    by (simp add: remove_session_list_def list_for_each_entry_safe_empty)
  have sock: "socks (close_fd f w) = socks w" for f w by (simp add: close_fd_def)
  have free: "socket_free (Ref s) (close_fd (opt_epoll_fd d) (without_servers xs (wd p))) =
      Inr (SOCKET_SUCCESS, dropped s sk (close_fd (opt_epoll_fd d) (without_servers xs (wd p))))"
    by (rule socket_free_run) (simp add: sock d(3))
  show ?thesis
    using d assms(2,3)
    by (simp add: option_free_def load_opt_def upd_opt_def on_td_def on_wd_def servers sessions free freed_def Let_def)
qed


definition free_proc :: proc where
  "free_proc = \<lparr>wd = (demo [])\<lparr>links := (links (demo []))(7 \<mapsto> \<lparr>nxt = 7, prv = 7\<rparr>)\<rparr>, td = tm (demo_pool 2),
     popts = [0 \<mapsto> demo_option\<lparr>opt_session_list := Ref 7, opt_thread_pool := Ref 2, opt_proxy_socket := Ref 0\<rparr>]\<rparr>"

lemma free_proc_set_up:
  "set_up free_proc 0 (demo_option\<lparr>opt_session_list := Ref 7, opt_thread_pool := Ref 2, opt_proxy_socket := Ref 0\<rparr>)
     [8] 0 (init_socket 4 64 zero_addr)"
  by (simp add: set_up_def free_proc_def demo_option_def demo_def boot_def ring_def nx_def pv_def)


end
