(* ===== verification/LogFile.thy ===== *)
theory LogFile
  imports CStrings
begin

section \<open>log.c: the log file\<close>

text \<open>
  \<open>src/log.c\<close>. The three static variables of the file are a record; an open file is the text written to
  it so far. What the C library answers is a parameter: whether files can be opened and memory is granted,
  the time, and whether a \<open>printf\<close> to \<open>/dev/null\<close> succeeds. A message is given as the text its
  format and arguments print. The mutexes protect \<open>log_write\<close> as a whole, which is one step here.
\<close>

subsection \<open>State\<close>

datatype log_init_error_type =
  LOG_INIT_SUCCESS | LOG_INIT_FILE_OPEN_FAILED | LOG_INIT_BUFFER_ALLOC_FAILED | LOG_INIT_ALREADY_INITED

datatype log_write_error_type =
  LOG_WRITE_SUCCESS | LOG_WRITE_NO_HANDLE | LOG_WRITE_TIME_GET_FAILED | LOG_WRITE_INVALID_MESSAGE

text \<open>\<open>log_file\<close> is \<open>None\<close> for NULL, \<open>log_check\<close> is \<open>log_message_size_check_file\<close>; \<open>log_buffer\<close>
  the block of 1024 bytes.\<close>

record log_state =
  log_file :: "string option"
  log_check :: bool
  log_buffer :: "char list option"

record tm_time =
  tm_year :: nat
  tm_mon :: nat
  tm_mday :: nat
  tm_hour :: nat
  tm_min :: nat
  tm_sec :: nat
  millitm :: nat

definition MAX_LOG_MESSAGE_SIZE :: nat where "MAX_LOG_MESSAGE_SIZE = 1024"

text \<open>\<open>printf("%0kd")\<close>\<close>

definition zero_padded :: "nat \<Rightarrow> nat \<Rightarrow> string" where
  "zero_padded k n = replicate (k - length (dec n)) (CHR ''0'') @ dec n"

text \<open>\<open>LOG_TIMESTAMP_PRINT_KOREAN\<close>: \<open>tm_year\<close> and \<open>tm_mon\<close> are printed as \<open>localtime\<close> gives them.\<close>

definition timestamp :: "tm_time \<Rightarrow> string" where
  "timestamp t = ''['' @ zero_padded 4 (tm_year t) @ ''-'' @ zero_padded 2 (tm_mon t) @ ''-'' @ zero_padded 2 (tm_mday t) @
     '' '' @ zero_padded 2 (tm_hour t) @ '':'' @ zero_padded 2 (tm_min t) @ '':'' @ zero_padded 2 (tm_sec t) @ ''.'' @
     zero_padded 3 (millitm t) @ '']''"

subsection \<open>Operations\<close>

definition log_free :: "log_state \<Rightarrow> log_state" where
  "log_free s = s\<lparr>log_file := None, log_check := False, log_buffer := None\<rparr>"

text \<open>\<open>contents\<close>: what the log file holds already (it is opened for appending), \<open>None\<close> when it cannot be
  opened.\<close>

definition log_init :: "string option \<Rightarrow> bool \<Rightarrow> bool \<Rightarrow> log_state \<Rightarrow> log_init_error_type \<times> log_state" where
  "log_init contents null_opens granted s =
     (if log_file s \<noteq> None then (LOG_INIT_ALREADY_INITED, s) else
      case contents of None \<Rightarrow> (LOG_INIT_FILE_OPEN_FAILED, s\<lparr>log_file := None\<rparr>)
      | Some c \<Rightarrow>
        (let s = s\<lparr>log_file := Some c, log_check := null_opens\<rparr> in
         if \<not> null_opens then (LOG_INIT_FILE_OPEN_FAILED, s)
         else if \<not> granted then (LOG_INIT_BUFFER_ALLOC_FAILED, log_free (s\<lparr>log_buffer := None\<rparr>))
         else (LOG_INIT_SUCCESS, s\<lparr>log_buffer := Some (replicate MAX_LOG_MESSAGE_SIZE NUL)\<rparr>)))"

text \<open>\<open>sprintf(dest + off, "%s", text)\<close>: the text and a NUL.\<close>

definition sprint_at :: "char list \<Rightarrow> nat \<Rightarrow> string \<Rightarrow> char list cres" where
  "sprint_at dest off t =
     (if off + length t + 1 > length dest then Inl (UB Out_of_bounds)
      else Inr (take off dest @ t @ NUL # drop (off + length t + 1) dest))"

text \<open>The result of a \<open>fprintf\<close> of \<open>t\<close>: its length, or \<open>-1\<close>.\<close>

definition printed :: "bool \<Rightarrow> string \<Rightarrow> int" where
  "printed ok t = (if ok then int (length t) else -1)"

text \<open>\<open>now\<close> is \<open>None\<close> when \<open>ftime\<close> fails; \<open>ok1\<close> and \<open>ok2\<close> tell whether the two trial prints succeed.\<close>

definition log_write ::
  "tm_time option \<Rightarrow> bool \<Rightarrow> bool \<Rightarrow> string option \<Rightarrow> log_state \<Rightarrow> (log_write_error_type \<times> log_state) cres" where
  "log_write now ok1 ok2 message s =
     (case message of None \<Rightarrow> Inr (LOG_WRITE_INVALID_MESSAGE, s) | Some t \<Rightarrow>
     if log_file s = None then Inr (LOG_WRITE_NO_HANDLE, s) else
     case now of None \<Rightarrow> Inr (LOG_WRITE_TIME_GET_FAILED, s) | Some local_time \<Rightarrow>
     if \<not> log_check s then Inl (UB Null_deref) else
     let buffer_length = printed ok1 (timestamp local_time) + printed ok2 t + 2 in
     if buffer_length < 0 \<or> buffer_length \<ge> int MAX_LOG_MESSAGE_SIZE
     then (case log_buffer s of None \<Rightarrow> Inl (UB Null_deref)
           | Some _ \<Rightarrow> Inr (LOG_WRITE_INVALID_MESSAGE, s\<lparr>log_buffer := Some (replicate MAX_LOG_MESSAGE_SIZE NUL)\<rparr>))
     else
     case log_buffer s of None \<Rightarrow> Inl (UB Null_deref) | Some b \<Rightarrow>
     seq (sprint_at b 0 (timestamp local_time)) (\<lambda>b.
     seq (strcat b '' '') (\<lambda>b.
     seq (sprint_at b (length (timestamp local_time) + 1) t) (\<lambda>b.
     seq (strcat b [LF]) (\<lambda>b.
     Inr (LOG_WRITE_SUCCESS, s\<lparr>log_buffer := Some b, log_file := map_option (\<lambda>f. f @ cstr b) (log_file s)\<rparr>))))))"

subsection \<open>The invariant\<close>

text \<open>Either nothing is open, or everything is and the buffer has its size.\<close>

definition log_ok :: "log_state \<Rightarrow> bool" where
  "log_ok s \<longleftrightarrow> (if log_file s = None then \<not> log_check s \<and> log_buffer s = None
     else log_check s \<and> (\<exists>b. log_buffer s = Some b \<and> length b = MAX_LOG_MESSAGE_SIZE))"

lemma sprint_at_run:
  "off + length t < length dest \<Longrightarrow> sprint_at dest off t = Inr (take off dest @ t @ NUL # drop (off + length t + 1) dest)"
  by (simp add: sprint_at_def)

lemma timestamp_no_nul: "NUL \<notin> set (timestamp t)"
  using dec_no_special(1) by (auto simp: timestamp_def zero_padded_def)

lemma log_write_run:
  assumes "log_ok s" "log_file s = Some f" "NUL \<notin> set t" "length (timestamp now) + length t + 2 < MAX_LOG_MESSAGE_SIZE"
  shows "\<exists>b. log_write (Some now) True True (Some t) s = Inr (LOG_WRITE_SUCCESS,
      s\<lparr>log_buffer := Some b, log_file := Some (f @ timestamp now @ '' '' @ t @ [LF])\<rparr>) \<and> length b = MAX_LOG_MESSAGE_SIZE"
proof -
  let ?ts = "timestamp now"
  let ?n = "length ?ts"
  obtain b where b: "log_buffer s = Some b" "length b = MAX_LOG_MESSAGE_SIZE" "log_check s"
    using assms(1,2) by (auto simp: log_ok_def split: if_splits)
  define r1 where "r1 = drop (?n + 1) b"
  have s1: "sprint_at b 0 ?ts = Inr (?ts @ NUL # r1)"
    using sprint_at_run [of 0 ?ts b] assms(4) b(2) by (simp add: r1_def)
  have l1: "length r1 = MAX_LOG_MESSAGE_SIZE - (?n + 1)" by (simp add: r1_def b(2))
  define r2 where "r2 = drop 1 r1"
  have s2: "strcat (?ts @ NUL # r1) '' '' = Inr (?ts @ '' '' @ NUL # r2)"
    unfolding r2_def using strcat_lit [OF timestamp_no_nul, of "'' ''" r1 now] assms(4) l1 by simp
  define r3 where "r3 = drop (length t + 1) (NUL # r2)"
  have l2: "length r2 = MAX_LOG_MESSAGE_SIZE - (?n + 2)" by (simp add: r2_def l1)
  have s3: "sprint_at (?ts @ '' '' @ NUL # r2) (?n + 1) t = Inr (?ts @ '' '' @ t @ NUL # r3)"
    using sprint_at_run [of "?n + 1" t "?ts @ '' '' @ NUL # r2"] assms(4) l2 by (simp add: r3_def)
  have n: "NUL \<notin> set (?ts @ '' '' @ t)" using timestamp_no_nul assms(3) by auto
  have l3: "length r3 = MAX_LOG_MESSAGE_SIZE - (?n + length t + 2)" using assms(4) by (simp add: r3_def l2)
  define r4 where "r4 = drop 1 r3"
  have s4: "strcat (?ts @ '' '' @ t @ NUL # r3) [LF] = Inr (?ts @ '' '' @ t @ LF # NUL # r4)"
    using strcat_lit [OF n, of "[LF]" r3] assms(4) l3 by (simp add: r4_def)
  have c: "cstr (?ts @ '' '' @ t @ LF # NUL # r4) = ?ts @ '' '' @ t @ [LF]"
    using cstr_lit [of "?ts @ '' '' @ t @ [LF]" r4] n by simp
  have len: "length (?ts @ '' '' @ t @ LF # NUL # r4) = MAX_LOG_MESSAGE_SIZE"
    using assms(4) by (simp add: r4_def l3)
  have fits: "\<not> (printed True ?ts + printed True t + 2 < 0 \<or> printed True ?ts + printed True t + 2 \<ge> int MAX_LOG_MESSAGE_SIZE)"
    using assms(4) by (simp add: printed_def)
  have "log_write (Some now) True True (Some t) s = Inr (LOG_WRITE_SUCCESS,
      s\<lparr>log_buffer := Some (?ts @ '' '' @ t @ LF # NUL # r4), log_file := Some (f @ ?ts @ '' '' @ t @ [LF])\<rparr>)"
    using b assms(2) fits s1 s2 s3 s4 c by (simp add: log_write_def Let_def del: append.simps)
  with len show ?thesis by blast
qed

subsection \<open>Properties\<close>

text \<open>C25: On a log that is fully open or fully closed, and with trial prints that succeed, \<open>log_write\<close> is
  safe: it never writes outside its buffer, it leaves the log fully open or closed, and it reports success
  exactly when there is a message, an open log, a time, and the stamp, a space, the message, a line end and a
  NUL fit into the 1024 bytes; then exactly that line is appended to the file, and otherwise nothing is.\<close>

theorem log_write_outcome:
  assumes "log_ok s" "message = None \<or> NUL \<notin> set (the message)"
  shows "\<exists>r s'. log_write now True True message s = Inr (r, s') \<and> log_ok s' \<and>
    (if r = LOG_WRITE_SUCCESS
     then (\<exists>t l f. message = Some t \<and> now = Some l \<and> log_file s = Some f \<and>
       length (timestamp l) + length t + 2 < MAX_LOG_MESSAGE_SIZE \<and>
       log_file s' = Some (f @ timestamp l @ '' '' @ t @ [LF]))
     else log_file s' = log_file s \<and> (message = None \<or> now = None \<or> log_file s = None \<or>
       length (timestamp (the now)) + length (the message) + 2 \<ge> MAX_LOG_MESSAGE_SIZE))"
proof (cases "message = None \<or> now = None \<or> log_file s = None")
  case True
  then show ?thesis using assms(1) by (auto simp: log_write_def split: option.splits)
next
  case False
  then obtain t l f where s: "message = Some t" "now = Some l" "log_file s = Some f" by auto
  obtain b where b: "log_buffer s = Some b" "log_check s" using assms(1) s(3) by (auto simp: log_ok_def)
  show ?thesis
  proof (cases "length (timestamp l) + length t + 2 < MAX_LOG_MESSAGE_SIZE")
    case True
    obtain c where c: "log_write (Some l) True True (Some t) s = Inr (LOG_WRITE_SUCCESS,
        s\<lparr>log_buffer := Some c, log_file := Some (f @ timestamp l @ '' '' @ t @ [LF])\<rparr>)" "length c = MAX_LOG_MESSAGE_SIZE"
      using log_write_run [OF assms(1) s(3) _ True] assms(2) s(1) by auto
    moreover have "log_ok (s\<lparr>log_buffer := Some c, log_file := Some (f @ timestamp l @ '' '' @ t @ [LF])\<rparr>)"
      using b c(2) by (simp add: log_ok_def)
    ultimately show ?thesis using s True by auto
  next
    case False
    then have "log_write now True True message s =
        Inr (LOG_WRITE_INVALID_MESSAGE, s\<lparr>log_buffer := Some (replicate MAX_LOG_MESSAGE_SIZE NUL)\<rparr>)"
      using s b by (auto simp: log_write_def printed_def Let_def)
    moreover have "log_ok (s\<lparr>log_buffer := Some (replicate MAX_LOG_MESSAGE_SIZE NUL)\<rparr>)"
      using s(3) b by (simp add: log_ok_def)
    ultimately show ?thesis using s False by auto
  qed
qed

definition demo_time :: tm_time where
  "demo_time = \<lparr>tm_year = 120, tm_mon = 5, tm_mday = 1, tm_hour = 12, tm_min = 30, tm_sec = 0, millitm = 7\<rparr>"

definition demo_log :: log_state where
  "demo_log = \<lparr>log_file = Some [], log_check = True, log_buffer = Some (replicate MAX_LOG_MESSAGE_SIZE NUL)\<rparr>"

lemma demo_timestamp: "timestamp demo_time = ''[0120-05-01 12:30:00.007]''"
  by code_simp

theorem log_write_outcome_witness:
  "\<exists>r s'. log_write (Some demo_time) True True (Some ''started'') demo_log = Inr (r, s') \<and>
     (r = LOG_WRITE_SUCCESS \<longrightarrow> log_file s' = Some (''[0120-05-01 12:30:00.007] started'' @ [LF])) \<and>
     (r \<noteq> LOG_WRITE_SUCCESS \<longrightarrow> log_file s' = Some [])"
proof -
  have ok: "log_ok demo_log" by (simp add: log_ok_def demo_log_def)
  have f: "log_file demo_log = Some []" by (simp add: demo_log_def)
  note T = log_write_outcome [of demo_log "Some ''started''" "Some demo_time", OF ok]
  obtain r s' where r: "log_write (Some demo_time) True True (Some ''started'') demo_log = Inr (r, s')"
    and s: "r = LOG_WRITE_SUCCESS \<longrightarrow> (\<exists>t l f. Some ''started'' = Some t \<and> Some demo_time = Some l \<and> log_file demo_log = Some f \<and>
       log_file s' = Some (f @ timestamp l @ '' '' @ t @ [LF]))"
    and n: "r \<noteq> LOG_WRITE_SUCCESS \<longrightarrow> log_file s' = log_file demo_log"
    using T by (auto split: if_split_asm)
  have "log_file s' = Some (''[0120-05-01 12:30:00.007] started'' @ [LF])" if "r = LOG_WRITE_SUCCESS"
    using s that by (auto simp: f demo_timestamp)
  with r n f show ?thesis by auto
qed

text \<open>C40: When \<open>/dev/null\<close> cannot be opened, \<open>log_init\<close> reports a failure and leaves the log half open: a
  second attempt is refused as if the log were ready, and writing a message follows the NULL file.\<close>

theorem log_init_half_open:
  assumes "log_file s = None" "log_init (Some c) False granted s = (r, s')"
  shows "r = LOG_INIT_FILE_OPEN_FAILED \<and>
    fst (log_init contents' null_opens' granted' s') = LOG_INIT_ALREADY_INITED \<and>
    log_write (Some now) ok1 ok2 (Some t) s' = Inl (UB Null_deref)"
  using assms by (auto simp: log_init_def log_write_def Let_def)

theorem log_init_half_open_witness:
  "log_write (Some demo_time) True True (Some ''started'')
     (snd (log_init (Some []) False True \<lparr>log_file = None, log_check = False, log_buffer = None\<rparr>)) = Inl (UB Null_deref)"
proof -
  let ?s = "\<lparr>log_file = None, log_check = False, log_buffer = None\<rparr> :: log_state"
  obtain r s' where "log_init (Some []) False True ?s = (r, s')" by (cases "log_init (Some []) False True ?s")
  with log_init_half_open [of ?s "[]" True r s'] show ?thesis by simp
qed

end
