(* ===== verification/Progress.thy ===== *)
theory Progress
  imports Session "HOL-Library.Sublist"
begin

section \<open>What no operation undoes\<close>

text \<open>
  A relation between the world before and after any operation of the proxy that runs while it serves
  clients: answers of the system are used up and not given back, addresses are not given out again,
  the configured servers and the options stay as they are, and no session structure is ever freed. One
  lemma per operation, each from those of the operations it calls; the event loop comes last.
\<close>

subsection \<open>The relation\<close>

definition later :: "world \<Rightarrow> world \<Rightarrow> bool" where
  "later w w' \<longleftrightarrow> suffix (script w') (script w) \<and> strict_epoll w' = strict_epoll w \<and>
     goption w' = goption w \<and> saddrs w' = saddrs w \<and> brk w \<le> brk w' \<and>
     (\<forall>a. sessions w a \<noteq> None \<longrightarrow> sessions w' a \<noteq> None)"

lemmas suffix_simps [simp] = suffix_Cons

lemma later_refl [simp]: "later w w"
  by (simp add: later_def)

lemma later_trans [trans]: "later w w1 \<Longrightarrow> later w1 w2 \<Longrightarrow> later w w2"
  by (auto simp: later_def intro: suffix_order.trans)

text \<open>Steps that a world record shows directly.\<close>

lemma later_upd [simp]:
  "later w (w1\<lparr>socks := f\<rparr>) = later w w1" "later w (w1\<lparr>clients := g\<rparr>) = later w w1"
  "later w (w1\<lparr>servers := h\<rparr>) = later w w1" "later w (w1\<lparr>links := l\<rparr>) = later w w1"
  "later w (w1\<lparr>blocks := n\<rparr>) = later w w1" "later w (w1\<lparr>open_fds := fs\<rparr>) = later w w1"
  "later w (w1\<lparr>epoll_regs := es\<rparr>) = later w w1" "later w (w1\<lparr>sent := st\<rparr>) = later w w1"
  "later w (w1\<lparr>trace := tr\<rparr>) = later w w1"
  by (simp_all add: later_def)

lemma later_brk [intro!]: "later w w1 \<Longrightarrow> brk w1 \<le> n \<Longrightarrow> later w (w1\<lparr>brk := n\<rparr>)"
  by (simp add: later_def)

lemma later_script [intro!]: "later w w1 \<Longrightarrow> suffix rs (script w1) \<Longrightarrow> later w (w1\<lparr>script := rs\<rparr>)"
  by (auto simp: later_def intro: suffix_order.trans)

lemma later_sessions [intro!]:
  "later w w1 \<Longrightarrow> (\<And>b. sessions w b \<noteq> None \<Longrightarrow> sessions w1 b \<noteq> None \<Longrightarrow> f b \<noteq> None) \<Longrightarrow> later w (w1\<lparr>sessions := f\<rparr>)"
  by (simp add: later_def)

text \<open>Everything below the session list leaves the list nodes alone as well.\<close>

definition still :: "world \<Rightarrow> world \<Rightarrow> bool" where
  "still w w' \<longleftrightarrow> later w w' \<and> links w' = links w"

lemma still_refl [simp]: "still w w"
  by (simp add: still_def)

lemma still_trans [trans]: "still w w1 \<Longrightarrow> still w1 w2 \<Longrightarrow> still w w2"
  by (auto simp: still_def intro: later_trans)

lemma still_later: "still w w' \<Longrightarrow> later w w'"
  by (simp add: still_def)

lemma later_still: "later w w1 \<Longrightarrow> still w1 w2 \<Longrightarrow> later w w2"
  by (auto simp: still_def intro: later_trans)

lemma still_upd [simp]:
  "still w (w1\<lparr>socks := f\<rparr>) = still w w1" "still w (w1\<lparr>clients := g\<rparr>) = still w w1"
  "still w (w1\<lparr>servers := h\<rparr>) = still w w1"
  "still w (w1\<lparr>blocks := n\<rparr>) = still w w1" "still w (w1\<lparr>open_fds := fs\<rparr>) = still w w1"
  "still w (w1\<lparr>epoll_regs := es\<rparr>) = still w w1" "still w (w1\<lparr>sent := st\<rparr>) = still w w1"
  "still w (w1\<lparr>trace := tr\<rparr>) = still w w1"
  by (simp_all add: still_def)

lemma still_brk [intro!]: "still w w1 \<Longrightarrow> brk w1 \<le> n \<Longrightarrow> still w (w1\<lparr>brk := n\<rparr>)"
  by (auto simp: still_def)

lemma still_script [intro!]: "still w w1 \<Longrightarrow> suffix rs (script w1) \<Longrightarrow> still w (w1\<lparr>script := rs\<rparr>)"
  by (auto simp: still_def)

lemma still_sessions [intro!]:
  "still w w1 \<Longrightarrow> (\<And>b. sessions w b \<noteq> None \<Longrightarrow> sessions w1 b \<noteq> None \<Longrightarrow> f b \<noteq> None) \<Longrightarrow> still w (w1\<lparr>sessions := f\<rparr>)"
  by (auto simp: still_def)

lemma later_quiet:
  "later w w1 \<Longrightarrow> suffix rs (script w1) \<Longrightarrow> later w (w1\<lparr>script := rs, trace := tr\<rparr>)"
  "later w w1 \<Longrightarrow> suffix rs (script w1) \<Longrightarrow> later w (w1\<lparr>script := rs, trace := tr, sent := st\<rparr>)"
  by (auto simp: later_def intro: suffix_order.trans)

lemma still_quiet:
  "still w w1 \<Longrightarrow> suffix rs (script w1) \<Longrightarrow> still w (w1\<lparr>script := rs, trace := tr\<rparr>)"
  "still w w1 \<Longrightarrow> suffix rs (script w1) \<Longrightarrow> still w (w1\<lparr>script := rs, trace := tr, sent := st\<rparr>)"
  by (auto simp: still_def intro: later_quiet)

text \<open>
  \<open>tame m Q\<close>: the call does not run out of fuel, and if it returns, its result satisfies \<open>Q\<close>.
\<close>

definition tame :: "'a cres \<Rightarrow> ('a \<Rightarrow> bool) \<Rightarrow> bool" where
  "tame m Q = (case m of Inr x \<Rightarrow> Q x | Inl e \<Rightarrow> e \<noteq> Out_of_fuel)"

lemma tame_simps [simp]:
  "tame (Inr x) Q = Q x"
  "tame (Inl e) Q = (e \<noteq> Out_of_fuel)"
  by (simp_all add: tame_def)

lemma tame_seq [simp]: "tame (seq m f) Q = tame m (\<lambda>x. tame (f x) Q)"
  by (cases m) (auto simp: tame_def)

lemma tame_if: "tame (if b then m else m') Q \<longleftrightarrow> (b \<longrightarrow> tame m Q) \<and> (\<not> b \<longrightarrow> tame m' Q)"
  by simp

lemma tame_mono: "tame m P \<Longrightarrow> (\<And>x. P x \<Longrightarrow> Q x) \<Longrightarrow> tame m Q"
  by (cases m) auto

lemma tame_gives: "tame m Q \<Longrightarrow> gives m Q"
  by (cases m) auto

lemma tame_any: "tame m (\<lambda>_. True) \<Longrightarrow> (\<And>x. Q x) \<Longrightarrow> tame m Q"
  by (cases m) auto

lemma tame_sys:
  "tame (sys c w) Q \<longleftrightarrow> (\<forall>r rs. script w = r # rs \<longrightarrow> Q (r c, w\<lparr>script := rs, trace := c # trace w\<rparr>))"
  by (auto simp: sys_def split: list.splits)

lemma tame_deref: "tame (deref m p) Q \<longleftrightarrow> (\<forall>a x. p = Ref a \<longrightarrow> m a = Some x \<longrightarrow> Q x)"
  by (cases p) (auto split: option.split)

lemma tame_nonnull: "tame (nonnull p) Q \<longleftrightarrow> (p = Null \<longrightarrow> Q False) \<and> (\<forall>a. p = Ref a \<longrightarrow> Q True)"
  by (cases p) auto

lemma tame_addr_of: "tame (addr_of p) Q \<longleftrightarrow> (\<forall>a. p = Ref a \<longrightarrow> Q a)"
  by (cases p) auto

lemma tame_freed:
  "tame (freed m p) Q \<longleftrightarrow> (p = Null \<longrightarrow> Q m) \<and> (\<forall>a. p = Ref a \<longrightarrow> m a \<noteq> None \<longrightarrow> Q (m(a := None)))"
  by (cases p) (auto simp: freed_def)

lemma tame_ask_links: "tame (ask_links f w) Q \<longleftrightarrow> tame (f (links w)) Q"
  by (simp add: ask_links_def)

lemma tame_on_links: "tame (on_links f w) Q \<longleftrightarrow> tame (f (links w)) (\<lambda>h. Q (w\<lparr>links := h\<rparr>))"
  by (simp add: on_links_def)

lemma tame_case_option:
  "tame (case v of None \<Rightarrow> Inl (UB u) | Some x \<Rightarrow> f x) Q \<longleftrightarrow> (\<forall>x. v = Some x \<longrightarrow> tame (f x) Q)"
  by (cases v) auto

lemmas tame_prims = tame_case_option tame_ask_links tame_sys tame_deref tame_nonnull tame_addr_of tame_freed tame_on_links tame_if

subsection \<open>Rules for calls\<close>

text \<open>A call that returns the world as the last component of its result.\<close>

definition leads :: "(world \<Rightarrow> world \<Rightarrow> bool) \<Rightarrow> world \<Rightarrow> 'a \<times> world \<Rightarrow> bool" where
  "leads R w x = R w (snd x)"

definition leads3 :: "(world \<Rightarrow> world \<Rightarrow> bool) \<Rightarrow> world \<Rightarrow> 'a \<times> 'b \<times> world \<Rightarrow> bool" where
  "leads3 R w x = R w (snd (snd x))"

lemma leads_pair [simp]: "leads R w (x, w') = R w w'"
  by (simp add: leads_def)

lemma leads3_triple [simp]: "leads3 R w (x, y, w') = R w w'"
  by (simp add: leads3_def)

text \<open>
  What callers rely on: the relation between the worlds before and after a call composes. Then a call in
  the middle of an operation may be replaced by what is known of it, for partial correctness and for
  calls that are \<open>tame\<close>.
\<close>

locale frame =
  fixes R :: "world \<Rightarrow> world \<Rightarrow> bool"
  assumes compose: "R w w1 \<Longrightarrow> R w1 w2 \<Longrightarrow> R w w2"
begin

lemma gives_rule:
  assumes "gives m (leads R w1)" "R w w1" "\<And>x w2. R w w2 \<Longrightarrow> Q (x, w2)"
  shows "gives m Q"
  by (rule gives_mono [OF assms(1)]) (use assms(2,3) in \<open>auto simp: leads_def dest: compose [OF assms(2)]\<close>)

lemma gives_rule1:
  assumes "gives m (R w1)" "R w w1" "\<And>w2. R w w2 \<Longrightarrow> Q w2"
  shows "gives m Q"
  by (rule gives_mono [OF assms(1)]) (use assms(2,3) in \<open>auto dest: compose [OF assms(2)]\<close>)

lemma gives_rule3:
  assumes "gives m (leads3 R w1)" "R w w1" "\<And>x y w2. R w w2 \<Longrightarrow> Q (x, y, w2)"
  shows "gives m Q"
  by (rule gives_mono [OF assms(1)]) (use assms(2,3) in \<open>auto simp: leads3_def dest: compose [OF assms(2)]\<close>)

lemma tame_rule:
  assumes "tame m (leads R w1)" "R w w1" "\<And>x w2. R w w2 \<Longrightarrow> Q (x, w2)"
  shows "tame m Q"
  by (rule tame_mono [OF assms(1)]) (use assms(2,3) in \<open>auto simp: leads_def dest: compose [OF assms(2)]\<close>)

lemma tame_rule1:
  assumes "tame m (R w1)" "R w w1" "\<And>w2. R w w2 \<Longrightarrow> Q w2"
  shows "tame m Q"
  by (rule tame_mono [OF assms(1)]) (use assms(2,3) in \<open>auto dest: compose [OF assms(2)]\<close>)

lemma tame_rule3:
  assumes "tame m (leads3 R w1)" "R w w1" "\<And>x y w2. R w w2 \<Longrightarrow> Q (x, y, w2)"
  shows "tame m Q"
  by (rule tame_mono [OF assms(1)]) (use assms(2,3) in \<open>auto simp: leads3_def dest: compose [OF assms(2)]\<close>)

end

text \<open>A coarser relation \<open>R\<close> for the caller, a finer one \<open>S\<close> for what it calls.\<close>

locale nested_frame = frame R for R :: "world \<Rightarrow> world \<Rightarrow> bool" +
  fixes S :: "world \<Rightarrow> world \<Rightarrow> bool"
  assumes finer: "S w w' \<Longrightarrow> R w w'"
begin

lemma call_rule:
  assumes "tame m (leads S w1)" "R w w1" "\<And>x w2. R w w2 \<Longrightarrow> Q (x, w2)"
  shows "gives m Q"
proof -
  have "gives m (leads R w1)" by (rule gives_mono [OF tame_gives [OF assms(1)]]) (simp add: leads_def finer)
  then show ?thesis by (rule gives_rule [OF _ assms(2)]) (rule assms(3))
qed

lemma call_rule1:
  assumes "tame m (S w1)" "R w w1" "\<And>w2. R w w2 \<Longrightarrow> Q w2"
  shows "gives m Q"
proof -
  have "gives m (R w1)" by (rule gives_mono [OF tame_gives [OF assms(1)]]) (rule finer)
  then show ?thesis by (rule gives_rule1 [OF _ assms(2)]) (rule assms(3))
qed

lemma call_rule3:
  assumes "tame m (leads3 S w1)" "R w w1" "\<And>x y w2. R w w2 \<Longrightarrow> Q (x, y, w2)"
  shows "gives m Q"
proof -
  have "gives m (leads3 R w1)" by (rule gives_mono [OF tame_gives [OF assms(1)]]) (simp add: leads3_def finer)
  then show ?thesis by (rule gives_rule3 [OF _ assms(2)]) (rule assms(3))
qed

end

interpretation still: frame still
  by unfold_locales (rule still_trans)

interpretation later: nested_frame later still
  by unfold_locales (auto intro: later_trans still_later)

abbreviation later_res :: "world \<Rightarrow> 'a \<times> world \<Rightarrow> bool" where "later_res \<equiv> leads later"

abbreviation still_res :: "world \<Rightarrow> 'a \<times> world \<Rightarrow> bool" where "still_res \<equiv> leads still"

abbreviation still_res3 :: "world \<Rightarrow> 'a \<times> 'b \<times> world \<Rightarrow> bool" where "still_res3 \<equiv> leads3 still"

lemmas later_rule = later.gives_rule and later_rule1 = later.gives_rule1
lemmas still_rule = still.tame_rule and still_rule1 = still.tame_rule1 and still_rule3 = still.tame_rule3
lemmas on_rule = later.call_rule and on_rule1 = later.call_rule1 and on_rule3 = later.call_rule3

subsection \<open>Sockets\<close>

lemmas tame_sys_prims = tame_prims malloc_def new_fd_def sys_rc_def getsockname_def epoll_ctl_add_def epoll_ctl_del_def
  object_defs fd_of_def global_epoll_fd_def Let_def

lemma socket_free_still: "tame (socket_free p w) (still_res w)"
  by (auto simp: socket_free_def tame_sys_prims close_fd_def shutdown_fd_def)

lemma set_buffer_size_still: "tame (socket_set_buffer_size p n w) (still_res w)"
  by (auto simp: socket_set_buffer_size_def tame_sys_prims)

lemma set_nonblock_still: "tame (socket_set_nonblock_mode k w) (still_res w)"
  by (auto simp: socket_set_nonblock_mode_def tame_sys_prims)

lemma socket_init_still: "tame (socket_init p k n a w) (still_res w)"
  by (auto simp: socket_init_def tame_sys_prims
      intro!: still_rule [where w = w, OF set_buffer_size_still] still_rule [where w = w, OF socket_free_still] still_rule [where w = w, OF set_nonblock_still])

lemma create_by_socket_still: "tame (socket_create_by_socket k n w) (still_res w)"
  by (auto simp: socket_create_by_socket_def tame_sys_prims
      intro!: still_rule [where w = w, OF socket_init_still] still_rule [where w = w, OF socket_free_still])

lemma socket_create_still: "tame (socket_create n a w) (still_res w)"
  by (cases a) (auto simp: socket_create_def tame_sys_prims
      intro!: still_rule [where w = w, OF socket_init_still] still_rule [where w = w, OF socket_free_still])

lemma socket_connect_still: "tame (socket_connect p w) (still_res w)"
  by (auto simp: socket_connect_def tame_sys_prims)

lemma socket_listen_still: "tame (socket_listen p b w) (still_res w)"
  by (auto simp: socket_listen_def tame_sys_prims)

lemma add_to_epoll_still: "tame (socket_add_to_epoll e k w) (still_res w)"
  by (auto simp: socket_add_to_epoll_def tame_sys_prims)

lemma buffer_write_still: "tame (session_buffer_write p b n w) (still_res w)"
  by (cases b) (auto simp: session_buffer_write_def memcpy_at_def tame_sys_prims)

subsection \<open>Clients and servers\<close>

lemma drops_still:
  "tame (client_drop_command p w) (still w)" "tame (client_drop_data p w) (still w)"
  "tame (server_drop_command p w) (still w)" "tame (server_drop_data p w) (still w)"
  by (auto simp: client_drop_command_def client_drop_data_def server_drop_command_def server_drop_data_def
      tame_sys_prims intro!: still_rule [where w = w, OF socket_free_still])

lemma client_free_still: "tame (client_free p w) (still_res w)"
  by (auto simp: client_free_def tame_sys_prims
      intro!: still_rule1 [where w = w, OF drops_still(1)] still_rule1 [where w = w, OF drops_still(2)])

lemma server_free_still: "tame (server_free p w) (still_res w)"
  by (auto simp: server_free_def tame_sys_prims
      intro!: still_rule1 [where w = w, OF drops_still(3)] still_rule1 [where w = w, OF drops_still(4)])

lemma client_create_still: "tame (client_create k w) (still_res w)"
  by (auto simp: client_create_def tame_sys_prims
      intro!: still_rule [where w = w, OF create_by_socket_still] still_rule [where w = w, OF client_free_still]
        still_rule [where w = w, OF add_to_epoll_still])

lemma client_connect_still: "tame (client_connect p a w) (still_res w)"
  by (cases a) (auto simp: client_connect_def tame_sys_prims
      intro!: still_rule [where w = w, OF socket_create_still] still_rule [where w = w, OF socket_connect_still]
        still_rule [where w = w, OF socket_free_still] still_rule [where w = w, OF add_to_epoll_still])

lemma to_client_still: "tame (send_packet_to_client p b n t w) (still_res w)"
  by (cases b; cases t) (auto simp: send_packet_to_client_def tame_sys_prims
      intro!: still_rule [where w = w, OF buffer_write_still])

lemma received_still:
  "tame (server_command_received p b n w) (still_res w)" "tame (server_data_received p b n w) (still_res w)"
  "tame (server_data_connection_received p b n w) (still_res w)"
  by (auto simp: server_command_received_def server_data_received_def server_data_connection_received_def tame_sys_prims
      intro!: still_rule [where w = w, OF to_client_still])

lemma server_listen_still: "tame (server_listen p a w) (still_res w)"
  by (auto simp: server_listen_def tame_sys_prims
      intro!: still_rule [where w = w, OF socket_create_still] still_rule [where w = w, OF socket_listen_still]
        still_rule [where w = w, OF socket_free_still] still_rule [where w = w, OF add_to_epoll_still])

lemma server_connect_still: "tame (server_connect p w) (still_res w)"
  by (auto simp: server_connect_def tame_sys_prims
      intro!: still_rule [where w = w, OF socket_create_still] still_rule [where w = w, OF socket_connect_still]
        still_rule [where w = w, OF socket_free_still] still_rule [where w = w, OF add_to_epoll_still])

lemma tame_load_saddr: "(\<And>s. Q s) \<Longrightarrow> tame (load_saddr p w) Q"
  by (auto simp: load_saddr_def split: ptr.split option.split)

lemma server_create_still: "tame (server_create a w) (still_res w)"
  by (auto simp: server_create_def tame_sys_prims
      intro!: still_rule [where w = w, OF server_connect_still] still_rule [where w = w, OF server_free_still]
        still_rule [where w = w, OF add_to_epoll_still] tame_load_saddr)

text \<open>The string functions do not have fuel.\<close>

lemma tame_strings [simp]:
  "tame (strlen s) (\<lambda>_. True)" "tame (strncmp s t n) (\<lambda>_. True)" "tame (strn_read s n) (\<lambda>_. True)"
  "tame (strncpy s t n) (\<lambda>_. True)" "tame (strcat s t) (\<lambda>_. True)" "tame (port_scan n s b k) (\<lambda>_. True)"
proof -
  show "tame (strncmp s t n) (\<lambda>_. True)" by (induction s t n rule: strncmp.induct) auto
  show read: "tame (strn_read s n) (\<lambda>_. True)" for s by (induction s n rule: strn_read.induct) auto
  show "tame (port_scan n s b k) (\<lambda>_. True)" by (induction n s b k rule: port_scan.induct) auto
  show "tame (strncpy s t n) (\<lambda>_. True)" by (simp add: strncpy_def) (rule tame_any [OF read], simp)
qed (simp_all add: strlen_def strcat_def)

lemma tame_write_port_command [simp]: "tame (write_port_command a b t) (\<lambda>_. True)"
  by (auto simp: write_port_command_def intro!: tame_any [OF tame_strings(4)] tame_any [OF tame_strings(5)])

lemma tame_is_port_command [simp]: "tame (is_port_command c n) (\<lambda>_. True)"
  by (auto simp: is_port_command_def split: option.split intro!: tame_any [OF tame_strings(2)])

lemma generate_still: "tame (generate_port_command k d w) (still_res3 w)"
  by (cases d) (auto simp: generate_port_command_def tame_sys_prims
      intro!: tame_any [OF tame_write_port_command] tame_any [OF tame_strings(1)])

lemma server_accept_still: "tame (server_accept p w) (still_res w)"
  by (auto simp: server_accept_def tame_sys_prims
      intro!: still_rule [where w = w, OF create_by_socket_still] still_rule [where w = w, OF add_to_epoll_still])

lemma data_closed_still: "tame (server_data_closed p w) (still_res w)"
  by (auto simp: server_data_closed_def tame_sys_prims intro!: still_rule [where w = w, OF socket_free_still])

lemma get_address_still: "tame (get_address_from_port_command b n w) (still_res w)"
  by (auto simp: get_address_from_port_command_def tame_sys_prims split: option.splits prod.splits
      intro!: tame_any [OF tame_strings(3)])

lemma tame_fd_of [simp]: "tame (fd_of p w) (\<lambda>_. True)"
  by (simp add: fd_of_def load_socket_def tame_deref)

lemma to_server_still: "tame (send_packet_to_server p b n t w) (still_res3 w)"
  by (cases b) (auto simp: send_packet_to_server_def object_defs tame_prims Let_def intro!: tame_any [OF tame_is_port_command]
      still_rule [where w = w, OF server_listen_still] still_rule [where w = w, OF buffer_write_still]
      still_rule3 [where w = w, OF generate_still] tame_any [OF tame_fd_of])

subsection \<open>Packets\<close>

lemma sys_write_still: "tame (sys_write f d w) (still_res3 w)"
  by (auto simp: sys_write_def tame_sys Let_def intro!: still_quiet)

lemma sys_read_still: "tame (sys_read f n w) (\<lambda>(k, bs, e, w'). still w w')"
  by (auto simp: sys_read_def tame_sys Let_def intro!: still_quiet)

lemma packet_write_still: "tame (packet_write f d w) (still_res w)"
proof (induction f d w rule: packet_write.induct)
  case (1 f d w)
  show ?case
  proof (cases "sys_write f d w")
    case (Inr x)
    obtain n e w' where x: "x = (n, e, w')" by (cases x)
    have w: "still w w'" using sys_write_still [of f d w] Inr x by simp
    show ?thesis
    proof (cases "c_int n < 0 \<and> e = EINTR")
      case True
      have "tame (packet_write f d w') (still_res w')" by (rule 1 [OF Inr x [symmetric] refl refl True])
      from still_rule [OF this w, of "still_res w"] True Inr x show ?thesis
        by (subst packet_write.simps) simp
    qed (subst packet_write.simps, use Inr x w in auto)
  qed (subst packet_write.simps, use sys_write_still [of f d w] in auto)
qed

lemma packet_read_still: "tame (packet_read f n w) (still_res3 w)"
proof (induction f n w rule: packet_read.induct)
  case (1 f sz w)
  show ?case
  proof (cases "sys_read f sz w")
    case (Inr x)
    obtain n bs e w' where x: "x = (n, bs, e, w')" by (cases x)
    have w: "still w w'" using sys_read_still [of f sz w] Inr x by simp
    show ?thesis
    proof (cases "c_int n < 0 \<and> e = EINTR")
      case True
      have "tame (packet_read f sz w') (still_res3 w')" by (rule 1 [OF Inr x [symmetric] refl refl refl True])
      from still_rule3 [OF this w, of "still_res3 w"] True Inr x show ?thesis
        by (subst packet_read.simps) simp
    qed (subst packet_read.simps, use Inr x w in auto)
  qed (subst packet_read.simps, use sys_read_still [of f sz w] in auto)
qed

lemma full_write_still: "tame (full_write_loop f d n w) (still_res w)"
proof (induction f d n w rule: full_write_loop.induct)
  case (1 f d n w)
  show ?case
  proof (cases "packet_write f d w")
    case (Inr x)
    obtain r w' where x: "x = (r, w')" by (cases x)
    have w: "still w w'" using packet_write_still [of f d w] Inr x by simp
    show ?thesis
    proof (cases "r < 0 \<or> r = 0 \<or> r > c_int (int (length d)) \<or> length (drop (nat r) d) = 0")
      case True
      with w Inr x show ?thesis by (subst full_write_loop.simps) (auto simp: Let_def)
    next
      case False
      have "tame (full_write_loop f (drop (nat r) d) (n + r) w') (still_res w')"
        by (rule 1 [OF Inr x [symmetric] _ _ _ refl refl]) (use False in auto)
      from still_rule [OF this w, of "still_res w"] False Inr x show ?thesis
        by (subst full_write_loop.simps) (simp add: Let_def)
    qed
  qed (subst full_write_loop.simps, use packet_write_still [of f d w] in auto)
qed

lemma packet_full_write_still: "tame (packet_full_write f b n w) (still_res w)"
  by (simp add: packet_full_write_def full_write_still)

subsection \<open>Sessions\<close>

lemma flush_still: "tame (flush_socket p k w) (still w)"
  by (auto simp: flush_socket_def memset_zero_def object_defs tame_prims Let_def
      intro!: still_rule [where w = w, OF packet_full_write_still] split: option.split)

lemma tame_types [simp]:
  "tame (socket_has_fd p k w) (\<lambda>_. True)" "tame (session_get_client_socket_type k p w) (\<lambda>_. True)"
  "tame (session_get_server_socket_type k p w) (\<lambda>_. True)" "tame (is_socket_in_session p k w) (\<lambda>_. True)"
proof -
  show fd: "tame (socket_has_fd p k w) (\<lambda>_. True)" for p
    by (simp add: socket_has_fd_def tame_nonnull tame_any [OF tame_fd_of])
  show cl: "tame (session_get_client_socket_type k p w) (\<lambda>_. True)" for p
    by (auto simp: session_get_client_socket_type_def object_defs tame_prims intro!: tame_any [OF fd])
  show sv: "tame (session_get_server_socket_type k p w) (\<lambda>_. True)" for p
    by (auto simp: session_get_server_socket_type_def object_defs tame_prims intro!: tame_any [OF fd])
  show "tame (is_socket_in_session p k w) (\<lambda>_. True)"
    by (auto simp: is_socket_in_session_def object_defs tame_prims intro!: tame_any [OF cl] tame_any [OF sv])
qed

lemma session_write_still: "tame (session_write_packet p k w) (still_res w)"
  by (auto simp: session_write_packet_def object_defs tame_prims Let_def split: option.splits
      intro!: still_rule1 [where w = w, OF flush_still] tame_any [OF tame_types(2)]
        tame_any [OF tame_types(3)])

lemma del_from_epoll_still: "tame (socket_del_from_epoll e k w) (still_res w)"
  by (auto simp: socket_del_from_epoll_def tame_sys_prims)

lemma gives_True [simp]: "gives m (\<lambda>x. True)"
  by (cases m) auto

lemma gives_any: "(\<And>x. Q x) \<Longrightarrow> gives m Q"
  by (cases m) auto

lemma session_remove_later: "gives (session_remove_from_list p w) (later_res w)"
  by (auto simp: session_remove_from_list_def object_defs gives_prims
      intro!: on_rule [where w = w, OF client_free_still] on_rule [where w = w, OF server_free_still])

lemma gives_available: "(\<And>p. Q p) \<Longrightarrow> gives (server_get_available_address l w) Q"
  by (rule gives_any)

lemma add_session_later: "gives (add_session_to_list l k w) (later_res w)"
  by (auto simp: add_session_to_list_def open_session_def object_defs malloc_def new_fd_def getsockname_def gives_prims
      intro!: later_rule [where w = w, OF session_remove_later] on_rule [where w = w, OF client_create_still]
        on_rule [where w = w, OF client_free_still] on_rule [where w = w, OF server_create_still] gives_available)

lemma client_data_received_later: "gives (client_data_received p b n w) (later_res w)"
  by (auto simp: client_data_received_def gives_prims intro!: on_rule3 [where w = w, OF to_server_still])

lemma client_command_received_later: "gives (client_command_received p b n w) (later_res w)"
  by (cases b) (auto simp: client_command_received_def object_defs gives_prims Let_def split: option.split
      intro!: gives_any [where m = "is_port_command _ _"] on_rule [where w = w, OF get_address_still]
        on_rule [where w = w, OF client_connect_still] later_rule [where w = w, OF session_remove_later]
        on_rule3 [where w = w, OF to_server_still])

lemma read_failed_later: "gives (read_failed p k n t w) (later_res w)"
  by (auto simp: read_failed_def global_epoll_fd_def object_defs gives_prims
      intro!: on_rule [where w = w, OF del_from_epoll_still] on_rule [where w = w, OF data_closed_still]
        later_rule [where w = w, OF session_remove_later])

lemma dispatch_later: "gives (dispatch_packet p k b n t w) (later_res w)"
  by (auto simp: dispatch_packet_def object_defs gives_prims split: option.split port_type.split
      intro!: on_rule [where w = w, OF received_still(1)] on_rule [where w = w, OF received_still(2)]
        on_rule [where w = w, OF received_still(3)] later_rule [where w = w, OF client_data_received_later]
        later_rule [where w = w, OF client_command_received_later] gives_any [where m = "session_get_client_socket_type _ _ _"])

lemma session_read_later: "gives (session_read_packet p k w) (later_res w)"
  by (auto simp: session_read_packet_def object_defs gives_prims Let_def
      intro!: on_rule3 [where w = w, OF packet_read_still] later_rule [where w = w, OF read_failed_later]
        later_rule [where w = w, OF dispatch_later] gives_any [where m = "session_get_server_socket_type _ _ _"])

lemma handle_event_later: "gives (handle_event l c e w) (later_res w)"
  by (auto simp: handle_event_def object_defs gives_prims Let_def
      intro!: later_rule [where w = w, OF add_session_later] on_rule [where w = w, OF session_write_still]
        later_rule [where w = w, OF session_read_later] on_rule [where w = w, OF server_accept_still]
        gives_any [where m = "get_session_from_list _ _ _"] gives_any [where m = "socket_has_fd _ _ _"])

lemma handle_events_later: "gives (handle_events l c es w) (later w)"
proof (induction es arbitrary: w)
  case (Cons e es)
  have "gives (handle_events l c es w1) (later w)" if "later w w1" for w1
    by (rule later_rule1 [OF Cons.IH that])
  then show ?case by (auto intro!: later_rule [where w = w, OF handle_event_later])
qed simp

lemma session_polling_later:
  "gives (session_polling e l c w) (\<lambda>(ret, w'). later w w' \<and> length (script w') < length (script w))"
proof -
  have "gives (handle_events l c es w1) (\<lambda>w'. later w w' \<and> length (script w') < length (script w))"
    if "later w w1" "length (script w1) < length (script w)" for es w1
    by (rule gives_mono [OF handle_events_later]) (use that in \<open>auto simp: later_def intro: suffix_order.trans dest: suffix_length_le\<close>)
  then show ?thesis
    by (auto simp: session_polling_def gives_sys later_def)
qed

text \<open>How a round of the event loop can end: \<open>epoll_wait\<close> fails for another reason than a signal, and
  nothing else happens; in every other case the result is success.\<close>

definition poll_failed :: "int \<Rightarrow> world \<Rightarrow> world \<Rightarrow> bool" where
  "poll_failed e w w' \<longleftrightarrow> (\<exists>r. script w = r # script w' \<and> rv (r (Epoll_wait e)) = -1 \<and> err (r (Epoll_wait e)) \<noteq> EINTR \<and>
     w' = w\<lparr>script := script w', trace := Epoll_wait e # trace w\<rparr>)"

lemma session_polling_result:
  "gives (session_polling e l c w) (\<lambda>(ret, w'). if ret = SESSION_SUCCESS then True
     else ret = SESSION_POLLING_WAIT_ERROR \<and> poll_failed e w w')"
  by (auto simp: session_polling_def gives_sys poll_failed_def)

subsection \<open>Adding a session\<close>

lemma server_create_rule:
  assumes "strict_epoll w" "later w w1" "\<And>w'. later w w' \<Longrightarrow> Q (Null, w')"
  shows "gives (server_create a w1) Q"
proof -
  have "strict_epoll w1" using assms(1,2) by (simp add: later_def)
  then have "gives (server_create a w1) (\<lambda>x. later_res w1 x \<and> fst x = Null)"
    using server_create_gives [of w1 a] tame_gives [OF server_create_still [of a w1]] by (cases "server_create a w1") (auto simp: still_later)
  then show ?thesis by (rule gives_mono) (auto intro!: assms(3) later_trans [OF assms(2)])
qed

lemma add_session_gives:
  assumes "strict_epoll w"
  shows "gives (add_session_to_list l f w) (\<lambda>(p, w'). p = Null)"
  using assms
  by (auto simp: add_session_to_list_def open_session_def object_defs malloc_def new_fd_def getsockname_def gives_prims
      intro!: later_rule [where w = w, OF session_remove_later] on_rule [where w = w, OF client_create_still]
        on_rule [where w = w, OF client_free_still] server_create_rule [where w = w] gives_available)

text \<open>C24: On a system whose epoll refuses a second registration, accepting a client never yields a session:
  \<open>add_session_to_list\<close> returns NULL if it returns at all.\<close>

theorem add_session_never_succeeds:
  assumes "strict_epoll w"
  shows "gives (add_session_to_list l f w) (\<lambda>(p, w'). p = Null)"
  by (rule add_session_gives [OF assms])

theorem add_session_never_succeeds_witness:
  "gives (add_session_to_list (Ref 6) 9 (demo (map answer [0]))) (\<lambda>(p, w'). p = Null) \<and>
   \<not> stopped (add_session_to_list (Ref 6) 9 (demo (map answer [0]))) \<noteq> None"
proof
  show "\<not> stopped (add_session_to_list (Ref 6) 9 (demo (map answer [0]))) \<noteq> None"
    by (simp add: add_session_to_list_def alloc_session_def malloc_def sys_def answer_def stopped_def)
qed (rule add_session_never_succeeds, simp)
end
