(* ===== verification/SessionList.thy ===== *)
theory SessionList
  imports Progress
begin

section \<open>The list of sessions stays a list\<close>

text \<open>
  The invariant of the list of sessions: its nodes are a ring, each of them is a session, and none
  lies beyond the addresses given out. Every handler keeps it, whatever the system answers, and as
  long as it holds no loop over the list runs out of fuel: every round of the event loop comes to an end.
  The operations below the list leave its nodes alone (\<open>Progress\<close>); what is left are those that add and
  remove sessions and those that call them.
\<close>

subsection \<open>The invariant\<close>

definition lists_ok :: "nat \<Rightarrow> world \<Rightarrow> bool" where
  "lists_ok l w \<longleftrightarrow> (\<exists>xs. ring (links w) l xs \<and> (\<forall>x \<in> set (l # xs). x < brk w) \<and> (\<forall>x \<in> set xs. sessions w x \<noteq> None))"

definition in_list :: "nat \<Rightarrow> nat \<Rightarrow> world \<Rightarrow> bool" where
  "in_list l t w \<longleftrightarrow> (\<exists>xs. ring (links w) l xs \<and> t \<in> set xs)"

text \<open>What a handler promises: nothing undone, and the invariant.\<close>

definition kept :: "nat \<Rightarrow> world \<Rightarrow> world \<Rightarrow> bool" where
  "kept l w w' \<longleftrightarrow> later w w' \<and> lists_ok l w'"

lemma still_lists: "still w w' \<Longrightarrow> lists_ok l w \<Longrightarrow> lists_ok l w'"
proof -
  assume s: "still w w'" and "lists_ok l w"
  then obtain xs where "ring (links w) l xs" "\<forall>x \<in> set (l # xs). x < brk w" "\<forall>x \<in> set xs. sessions w x \<noteq> None"
    by (auto simp: lists_ok_def)
  moreover have "brk w \<le> brk w'" "links w' = links w" "\<And>x. sessions w x \<noteq> None \<Longrightarrow> sessions w' x \<noteq> None"
    using s by (auto simp: still_def later_def)
  ultimately show "lists_ok l w'" unfolding lists_ok_def by (intro exI [of _ xs]) (auto intro: less_le_trans)
qed

lemma still_in_list: "still w w' \<Longrightarrow> in_list l t w' = in_list l t w"
  by (simp add: still_def in_list_def)

lemma still_kept: "lists_ok l w \<Longrightarrow> still w w' \<Longrightarrow> kept l w w'"
  by (simp add: kept_def still_lists still_later)

lemma kept_still: "kept l w w1 \<Longrightarrow> still w1 w2 \<Longrightarrow> kept l w w2"
  by (auto simp: kept_def intro: later_still still_lists)

lemma kept_trans: "kept l w w1 \<Longrightarrow> kept l w1 w2 \<Longrightarrow> kept l w w2"
  by (auto simp: kept_def intro: later_trans)

definition kept_res :: "nat \<Rightarrow> world \<Rightarrow> 'a \<times> world \<Rightarrow> bool" where
  "kept_res l w x = kept l w (snd x)"

lemma kept_res_pair [simp]: "kept_res l w (x, w') = kept l w w'"
  by (simp add: kept_res_def)

text \<open>A handler called from one that has only done still things so far.\<close>

lemma kept_rule:
  fixes m :: "('a \<times> world) cres"
  assumes "tame m (kept_res l w1)" "still w w1" "\<And>x w2. kept l w w2 \<Longrightarrow> Q (x, w2)"
  shows "tame m Q"
proof (rule tame_mono [OF assms(1)])
  fix y :: "'a \<times> world"
  assume "kept_res l w1 y"
  then show "Q y" using assms(2,3) later_trans [OF still_later [OF assms(2)]] by (cases y) (auto simp: kept_def)
qed

text \<open>A still operation called from one that has changed the list.\<close>

lemma after_rule:
  assumes "tame m (still_res w1)" "kept l w w1" "\<And>x w2. kept l w w2 \<Longrightarrow> Q (x, w2)"
  shows "tame m Q"
  by (rule tame_mono [OF assms(1)]) (use assms(2,3) in \<open>auto simp: leads_def dest: kept_still [OF assms(2)]\<close>)

subsection \<open>Removing and adding\<close>

lemma tame_list_macros [simp]:
  "tame (get_n h a) (\<lambda>_. True)" "tame (LIST_ISEMPTY a h) (\<lambda>_. True)"
  by (cases "h a"; simp add: get_n_def LIST_ISEMPTY_def)+

lemma in_list_del:
  assumes "lists_ok l w" "in_list l t w"
  obtains h where "LIST_ISEMPTY t (links w) = Inr False" "LIST_DEL t (links w) = Inr h"
    "\<And>w'. still w w' \<Longrightarrow> kept l w (w'\<lparr>links := h\<rparr>)"
proof -
  obtain xs where xs: "ring (links w) l xs" "t \<in> set xs" using assms(2) by (auto simp: in_list_def)
  then obtain as bs where split: "xs = as @ t # bs" by (meson split_list)
  have r: "ring (links w) l (as @ t # bs)" using xs split by simp
  obtain h where h: "LIST_DEL t (links w) = Inr h" "ring h l (as @ bs)" using LIST_DEL_ring [OF r] by blast
  have ne: "LIST_ISEMPTY t (links w) = Inr False"
    using ring_neighbours(1) [OF r] ring_distinct [OF r] by (cases bs) (auto simp: LIST_ISEMPTY_def)
  have "kept l w (w'\<lparr>links := h\<rparr>)" if s: "still w w'" for w'
  proof -
    obtain ys where ys: "ring (links w') l ys" "\<forall>x \<in> set (l # ys). x < brk w'" "\<forall>x \<in> set ys. sessions w' x \<noteq> None"
      using still_lists [OF s assms(1)] by (auto simp: lists_ok_def)
    have "ys = xs" using ys(1) xs(1) s ring_unique by (auto simp: still_def)
    then show ?thesis using ys(2,3) h(2) s split
      by (auto simp: kept_def lists_ok_def still_later intro!: exI [of _ "as @ bs"])
  qed
  with ne h(1) show ?thesis by (rule that)
qed

lemma still_links: "still w w' \<Longrightarrow> links w' = links w"
  by (simp add: still_def)

lemma session_remove_kept:
  assumes "lists_ok l w" "in_list l t w"
  shows "tame (session_remove_from_list (Ref t) w) (kept_res l w)"
proof -
  obtain h where h: "LIST_ISEMPTY t (links w) = Inr False" "LIST_DEL t (links w) = Inr h"
    "\<And>w'. still w w' \<Longrightarrow> kept l w (w'\<lparr>links := h\<rparr>)"
    using in_list_del [OF assms] by blast
  show ?thesis
    using h(1,2)
    by (auto simp: session_remove_from_list_def object_defs tame_prims still_links intro!: h(3)
        still_rule [where w = w, OF client_free_still] still_rule [where w = w, OF server_free_still])
qed

text \<open>A session that is in no list yet.\<close>

lemma session_remove_unlisted:
  assumes "LIST_ISEMPTY t (links w) = Inr True"
  shows "tame (session_remove_from_list (Ref t) w) (still_res w)"
  using assms
  by (auto simp: session_remove_from_list_def object_defs tame_prims still_links
      intro!: still_rule [where w = w, OF client_free_still] still_rule [where w = w, OF server_free_still])

text \<open>A session \<open>t\<close> whose node has been initialised and that the list does not have.\<close>

definition fresh_session :: "nat \<Rightarrow> nat \<Rightarrow> world \<Rightarrow> bool" where
  "fresh_session l t w \<longleftrightarrow> lists_ok l w \<and> \<not> in_list l t w \<and> t \<noteq> l \<and> t < brk w \<and> t \<in> dom (links w) \<and>
     LIST_ISEMPTY t (links w) = Inr True \<and> sessions w t \<noteq> None"

lemma fresh_add:
  assumes "fresh_session l t w"
  obtains h where "LIST_ADD l t (links w) = Inr h" "\<And>w'. still w w' \<Longrightarrow> kept l w (w'\<lparr>links := h\<rparr>)"
proof -
  obtain xs where xs: "ring (links w) l xs" "\<forall>x \<in> set (l # xs). x < brk w" "\<forall>x \<in> set xs. sessions w x \<noteq> None"
    using assms by (auto simp: fresh_session_def lists_ok_def)
  have "t \<notin> set (l # xs)" "t \<in> dom (links w)" using assms xs(1) by (auto simp: fresh_session_def in_list_def)
  then obtain h where h: "LIST_ADD l t (links w) = Inr h" "ring h l (t # xs)"
    using LIST_ADD_ring [OF xs(1)] by blast
  have "kept l w (w'\<lparr>links := h\<rparr>)" if s: "still w w'" for w'
  proof -
    have "brk w \<le> brk w'" "\<And>x. sessions w x \<noteq> None \<Longrightarrow> sessions w' x \<noteq> None" using s by (auto simp: still_def later_def)
    then have "lists_ok l (w'\<lparr>links := h\<rparr>)" unfolding lists_ok_def
      using xs(2,3) h(2) assms by (intro exI [of _ "t # xs"]) (auto simp: fresh_session_def intro: less_le_trans)
    then show ?thesis using s by (simp add: kept_def still_later)
  qed
  with h(1) show ?thesis by (rule that)
qed

lemma tame_available: "tame (server_get_available_address p w) (\<lambda>_. True)"
  by (auto simp: server_get_available_address_def tame_prims intro!: tame_any [OF tame_list_macros(1)])

lemma open_session_kept:
  assumes "fresh_session l t w"
  shows "tame (open_session (Ref l) (Ref t) t k w) (kept_res l w)"
proof -
  have ok: "lists_ok l w" and empty: "LIST_ISEMPTY t (links w) = Inr True"
    using assms by (simp_all add: fresh_session_def)
  obtain h where h: "LIST_ADD l t (links w) = Inr h" "\<And>w'. still w w' \<Longrightarrow> kept l w (w'\<lparr>links := h\<rparr>)"
    using fresh_add [OF assms] by blast
  have remove: "tame (session_remove_from_list (Ref t) w1) (still_res w1)" if "still w w1" for w1
    by (rule session_remove_unlisted) (simp add: still_links [OF that] empty)
  note rules = still_kept [OF ok] h(2) tame_any [OF tame_available]
    still_rule [where w = w, OF client_create_still] still_rule [where w = w, OF server_create_still]
    still_rule [where w = w, OF client_free_still] still_rule [where w = w, OF remove]
  show ?thesis
    by (auto simp: open_session_def object_defs malloc_def new_fd_def getsockname_def tame_prims still_links h(1) intro!: rules)
qed

lemma add_session_kept:
  assumes "lists_ok l w"
  shows "tame (add_session_to_list (Ref l) k w) (kept_res l w)"
proof -
  obtain xs where xs: "ring (links w) l xs" "\<forall>x \<in> set (l # xs). x < brk w" "\<forall>x \<in> set xs. sessions w x \<noteq> None"
    using assms by (auto simp: lists_ok_def)
  let ?b = "brk w"
  have start: "tame (on_links (LIST_INIT ?b) w1) (\<lambda>w2. kept l w w2 \<and> fresh_session l ?b w2)"
    if w1: "later w w1" "brk w1 = Suc ?b" "links w1 = (links w)(?b \<mapsto> fresh_node)" "sessions w1 ?b \<noteq> None" for w1
  proof -
    obtain h where h: "LIST_INIT ?b (links w1) = Inr h" "ring h ?b []" "dom h = dom (links w1)" "\<forall>a. a \<noteq> ?b \<longrightarrow> h a = links w1 a"
      using LIST_INIT_ring [of ?b "links w1"] w1(3) by auto
    have r: "ring h l xs" using xs(2) h(4) w1(3) by (intro ring_frame [OF xs(1)]) auto
    have ok: "lists_ok l (w1\<lparr>links := h\<rparr>)" unfolding lists_ok_def
      using r xs w1 by (intro exI [of _ xs]) (auto simp: later_def less_Suc_eq)
    have no: "\<not> in_list l ?b (w1\<lparr>links := h\<rparr>)" using xs(2) by (auto simp: in_list_def dest!: ring_unique [OF r])
    have "LIST_ISEMPTY ?b h = Inr True" using LIST_ISEMPTY_ring [OF h(2)] by simp
    then show ?thesis using ok no w1 h(1,3) xs(2)
      by (auto simp: on_links_def kept_def fresh_session_def)
  qed
  have go_on: "tame (on_links (LIST_INIT ?b) w1) (\<lambda>w2. tame (open_session (Ref l) (Ref ?b) ?b k w2) (kept_res l w))"
    if "later w w1" "brk w1 = Suc ?b" "links w1 = (links w)(?b \<mapsto> fresh_node)" "sessions w1 ?b \<noteq> None" for w1
  proof (rule tame_mono [OF start [OF that]])
    fix w2 assume "kept l w w2 \<and> fresh_session l ?b w2"
    then show "tame (open_session (Ref l) (Ref ?b) ?b k w2) (kept_res l w)"
      using tame_mono [OF open_session_kept [of l ?b w2 k], of "kept_res l w"] by (auto simp: kept_res_def intro: kept_trans)
  qed
  show ?thesis
  proof (cases "script w")
    case (Cons r rs)
    let ?w = "w\<lparr>script := rs, trace := Malloc # trace w\<rparr>"
    have s: "still w ?w" by (intro still_quiet) (simp_all add: Cons)
    then have l: "later w (?w\<lparr>sessions := (sessions w)(?b \<mapsto> x), links := g, brk := Suc ?b\<rparr>)" for x g
      by (auto simp: still_def intro!: later_brk later_sessions)
    show ?thesis
      using still_kept [OF assms s] go_on [OF l] Cons
      by (simp add: add_session_to_list_def alloc_session_def malloc_def sys_def)
  qed (simp add: add_session_to_list_def alloc_session_def malloc_def sys_def)
qed

subsection \<open>Finding a session\<close>

lemma find_session_tame:
  "linked (links w) (xs @ [l]) \<Longrightarrow> l \<notin> set xs \<Longrightarrow> length xs < fuel \<Longrightarrow>
   tame (find_session fuel l f (hd (xs @ [l])) w) (\<lambda>p. p = Null \<or> (\<exists>t \<in> set xs. p = Ref t))"
proof (induction xs arbitrary: fuel)
  case Nil
  then show ?case by (cases fuel) auto
next
  case (Cons x xs)
  then obtain n where n: "fuel = Suc n" "length xs < n" by (cases fuel) auto
  have x: "nx (links w) x = Some (hd (xs @ [l]))" "linked (links w) (xs @ [l])" "x \<noteq> l"
    using Cons.prems(1,2) by (cases xs; simp)+
  have "tame (find_session n l f (hd (xs @ [l])) w) (\<lambda>p. p = Null \<or> (\<exists>t \<in> set (x # xs). p = Ref t))"
    by (rule tame_mono [OF Cons.IH]) (use x n Cons.prems(2) in auto)
  with x n show ?case
    by (auto simp: ask_links_def LIST_ELEM_def intro!: tame_any [OF tame_types(4)])
qed

lemma get_session_kept:
  assumes "lists_ok l w"
  shows "tame (get_session_from_list (Ref l) f w) (\<lambda>(p, e). p = Null \<or> (\<exists>t. p = Ref t \<and> in_list l t w))"
proof -
  obtain xs where xs: "ring (links w) l xs" "\<forall>x \<in> set (l # xs). x < brk w" using assms by (auto simp: lists_ok_def)
  have lk: "linked (links w) (xs @ [l])" and no: "l \<notin> set xs" "distinct xs"
    using xs(1) by (auto simp: ring_def) (cases xs; auto)
  have "length xs < Suc (brk w)" using distinct_bounded_length [OF no(2), of "brk w"] xs(2) by simp
  from find_session_tame [OF lk no(1) this] have
    "tame (find_session (Suc (brk w)) l f (hd (xs @ [l])) w) (\<lambda>p. p = Null \<or> (\<exists>t. p = Ref t \<and> in_list l t w))"
    by (rule tame_mono) (use xs(1) in \<open>auto simp: in_list_def\<close>)
  then show ?thesis
    using ring_first [OF xs(1)] by (simp add: get_session_from_list_def ask_links_def LIST_ELEM_def del: find_session.simps)
qed

subsection \<open>The handlers\<close>

lemma removal:
  assumes "lists_ok l w" "in_list l t w" "still w w1" "\<And>x w2. kept l w w2 \<Longrightarrow> Q (x, w2)"
  shows "tame (session_remove_from_list (Ref t) w1) Q"
proof -
  have "in_list l t w1" using still_in_list [OF assms(3)] assms(2) by simp
  from session_remove_kept [OF still_lists [OF assms(3,1)] this] show ?thesis
    by (rule kept_rule [OF _ assms(3)]) (rule assms(4))
qed

lemma client_data_received_still: "tame (client_data_received p b n w) (still_res w)"
  by (auto simp: client_data_received_def tame_prims intro!: still_rule3 [where w = w, OF to_server_still])

lemma client_command_received_kept:
  assumes "lists_ok l w" "in_list l t w"
  shows "tame (client_command_received (Ref t) b n w) (kept_res l w)"
proof (cases b)
  case (Some bytes)
  have kept: "kept l w w1" if "still w w1" for w1 by (rule still_kept [OF assms(1) that])
  then show ?thesis
    by (auto simp: client_command_received_def object_defs tame_prims Let_def Some split: option.split
        intro!: tame_any [OF tame_is_port_command] still_rule [where w = w, OF get_address_still]
          still_rule [where w = w, OF client_connect_still] removal [OF assms]
          still_rule3 [where w = w, OF to_server_still])
qed (simp add: client_command_received_def tame_prims still_kept [OF assms(1)])

lemma read_failed_kept:
  assumes "lists_ok l w" "in_list l t w"
  shows "tame (read_failed (Ref t) k n port w) (kept_res l w)"
  by (auto simp: read_failed_def global_epoll_fd_def object_defs tame_prims still_kept [OF assms(1)]
      intro!: still_rule [where w = w, OF del_from_epoll_still] still_rule [where w = w, OF data_closed_still] removal [OF assms])

lemma dispatch_kept:
  assumes "lists_ok l w" "in_list l t w"
  shows "tame (dispatch_packet (Ref t) k b n port w) (kept_res l w)"
  by (auto simp: dispatch_packet_def object_defs tame_prims still_kept [OF assms(1)] split: option.split port_type.split
      intro!: still_rule [where w = w, OF received_still(1)] still_rule [where w = w, OF received_still(2)]
        still_rule [where w = w, OF received_still(3)] still_rule [where w = w, OF client_data_received_still]
        kept_rule [where w = w, OF client_command_received_kept [OF assms]] tame_any [OF tame_types(2)])

lemma session_read_kept:
  assumes "lists_ok l w" "in_list l t w"
  shows "tame (session_read_packet (Ref t) k w) (kept_res l w)"
proof -
  have ok: "lists_ok l w1" "in_list l t w1" if "still w w1" for w1
    using still_lists [OF that assms(1)] still_in_list [OF that] assms(2) by simp_all
  have failed: "tame (read_failed (Ref t) k n port w1) (kept_res l w)" if s: "still w w1" for n port w1
    by (rule kept_rule [OF read_failed_kept [OF ok [OF s]] s]) simp
  have sent: "tame (dispatch_packet (Ref t) k b n port w1) (kept_res l w)" if s: "still w w1" for b n port w1
    by (rule kept_rule [OF dispatch_kept [OF ok [OF s]] s]) simp
  show ?thesis
    by (auto simp: session_read_packet_def object_defs tame_prims Let_def still_kept [OF assms(1)]
        intro!: still_rule3 [where w = w, OF packet_read_still] failed sent tame_any [OF tame_types(3)])
qed

lemma handle_event_kept:
  assumes "lists_ok l w"
  shows "tame (handle_event (Ref l) c e w) (kept_res l w)"
proof -
  have found: "tame (get_session_from_list (Ref l) f w) Q"
    if "\<And>x. Q (Null, x)" "\<And>t x. in_list l t w \<Longrightarrow> Q (Ref t, x)" for f Q
    by (rule tame_mono [OF get_session_kept [OF assms]]) (use that in auto)
  have self: "kept l w w" by (rule still_kept [OF assms still_refl])
  show ?thesis
    by (auto simp: handle_event_def object_defs tame_prims Let_def self
        intro!: found kept_rule [where w = w, OF add_session_kept [OF assms]]
          kept_rule [where w = w, OF session_read_kept [OF assms]] after_rule [where w = w and l = l, OF session_write_still]
          after_rule [where w = w and l = l, OF server_accept_still] tame_any [OF tame_types(1)])
qed

lemma handle_events_kept: "lists_ok l w \<Longrightarrow> tame (handle_events (Ref l) c es w) (kept l w)"
proof (induction es arbitrary: w)
  case (Cons e es)
  have "tame (handle_events (Ref l) c es w1) (kept l w)" if "kept l w w1" for w1
    by (rule tame_mono [OF Cons.IH]) (use that in \<open>auto simp: kept_def intro: kept_trans later_trans\<close>)
  then show ?case
    by (auto intro!: kept_rule [where w = w, OF handle_event_kept [OF Cons.prems]])
qed (simp add: still_kept)

lemma session_polling_kept: "lists_ok l w \<Longrightarrow> tame (session_polling e (Ref l) c w) (kept_res l w)"
proof -
  assume ok: "lists_ok l w"
  have "tame (handle_events (Ref l) c es w1) (kept l w)" if s: "still w w1" for es w1
    by (rule tame_mono [OF handle_events_kept [OF still_lists [OF s ok]]])
      (auto simp: kept_def intro: later_trans still_later [OF s])
  note handled = this
  show ?thesis
    by (auto simp: session_polling_def tame_sys intro!: handled still_kept [OF ok] still_quiet)
qed

end
