(* ===== verification/MainLoop.thy ===== *)
theory MainLoop
  imports Config LogFile SessionList
begin

section \<open>main.c: start-up, the event loop, the end\<close>

text \<open>
  \<open>src/main.c\<close>. The event loop is a job of the thread pool: \<open>main\<close> starts up, hands the loop to the pool,
  waits for the pool and frees everything. Here the loop is a function on the state of a process; \<open>main\<close>
  is the part up to the wait (\<open>main_start\<close>), the actions of the workers, and the rest
  (\<open>main_finish\<close>). The messages of \<open>proxy_error\<close> are left out.
\<close>

subsection \<open>The event loop\<close>

definition THREAD_AMOUNT :: int where "THREAD_AMOUNT = 10"

lemma session_polling_less:
  "session_polling e l c w = Inr (ret, w') \<Longrightarrow> length (script w') < length (script w)"
  using session_polling_later [of e l c w] by simp

text \<open>Every round reads at least one answer of the system, so the rounds end with the script.\<close>

function poll_rounds :: "option_s \<Rightarrow> world \<Rightarrow> world cres" where
  "poll_rounds option w =
     seq (fd_of (opt_proxy_socket option) w) (\<lambda>fd.
     seq (session_polling (opt_epoll_fd option) (opt_session_list option) fd w) (\<lambda>(ret, w).
     if ret \<noteq> SESSION_SUCCESS then Inr w else poll_rounds option w))"
  by pat_completeness auto

termination
  by (relation "measure (\<lambda>(option, w). length (script w))") (auto dest: session_polling_less)

declare poll_rounds.simps [simp del]

definition main_loop :: "ptr \<Rightarrow> proc \<Rightarrow> proc cres" where
  "main_loop arg p =
     (if arg = Null then Inr p else
      seq (load_opt arg p) (\<lambda>option.
      seq (poll_rounds option (wd p)) (\<lambda>w. Inr (p\<lparr>wd := w\<rparr>))))"

text \<open>Induction over the rounds: a property that \<open>session_polling\<close> keeps, and the last round.\<close>

lemma poll_rounds_result:
  "gives (poll_rounds option w) (\<lambda>w'. \<exists>w1. later w w1 \<and> poll_failed (opt_epoll_fd option) w1 w')"
proof (induction option w rule: poll_rounds.induct)
  case (1 option w)
  show ?case
  proof (cases "fd_of (opt_proxy_socket option) w")
    case (Inr fd)
    show ?thesis
    proof (cases "session_polling (opt_epoll_fd option) (opt_session_list option) fd w")
      case poll: (Inr x)
      obtain ret w1 where x: "x = (ret, w1)" by (cases x)
      have w1: "later w w1" using session_polling_later [of "opt_epoll_fd option" "opt_session_list option" fd w] poll x by simp
      show ?thesis
      proof (cases "ret = SESSION_SUCCESS")
        case True
        have "gives (poll_rounds option w1) (\<lambda>w'. \<exists>w2. later w1 w2 \<and> poll_failed (opt_epoll_fd option) w2 w')"
          by (rule "1.IH" [OF Inr poll x [symmetric]]) (simp add: True)
        then have "gives (poll_rounds option w1) (\<lambda>w'. \<exists>w2. later w w2 \<and> poll_failed (opt_epoll_fd option) w2 w')"
          by (rule gives_mono) (blast intro: later_trans [OF w1])
        then show ?thesis using Inr poll x True by (subst poll_rounds.simps) simp
      next
        case False
        then have "poll_failed (opt_epoll_fd option) w w1"
          using session_polling_result [of "opt_epoll_fd option" "opt_session_list option" fd w] poll x by simp
        then show ?thesis using Inr poll x False by (subst poll_rounds.simps) (auto intro: exI [of _ w])
      qed
    qed (subst poll_rounds.simps, simp add: Inr)
  qed (subst poll_rounds.simps, simp)
qed

lemma poll_failed_later: "poll_failed e w w' \<Longrightarrow> later w w'"
  unfolding poll_failed_def
proof (elim exE conjE)
  fix r assume r: "script w = r # script w'" "w' = w\<lparr>script := script w', trace := Epoll_wait e # trace w\<rparr>"
  have "later w (w\<lparr>script := script w', trace := Epoll_wait e # trace w\<rparr>)"
    by (intro later_quiet later_refl) (simp add: r(1))
  with r(2) show "later w w'" by simp
qed

lemma poll_rounds_later: "gives (poll_rounds option w) (later w)"
  by (rule gives_mono [OF poll_rounds_result]) (blast intro: later_trans poll_failed_later)

text \<open>The list of sessions, round by round.\<close>

lemma poll_rounds_kept:
  assumes "opt_session_list option = Ref l"
  shows "lists_ok l w \<Longrightarrow> tame (poll_rounds option w) (kept l w)"
  using assms
proof (induction option w rule: poll_rounds.induct)
  case (1 option w)
  show ?case
  proof (cases "fd_of (opt_proxy_socket option) w")
    case (Inr fd)
    have polled: "tame (session_polling (opt_epoll_fd option) (opt_session_list option) fd w) (kept_res l w)"
      using session_polling_kept [OF 1(2)] 1(3) by simp
    show ?thesis
    proof (cases "session_polling (opt_epoll_fd option) (opt_session_list option) fd w")
      case poll: (Inr x)
      obtain ret w1 where x: "x = (ret, w1)" by (cases x)
      have w1: "kept l w w1" using polled poll x by simp
      have "tame (poll_rounds option w1) (kept l w)" if "ret = SESSION_SUCCESS"
      proof (rule tame_mono [OF "1.IH" [OF Inr poll x [symmetric]]])
        show "\<not> ret \<noteq> SESSION_SUCCESS" using that by simp
        show "lists_ok l w1" using w1 by (simp add: kept_def)
        show "kept l w w2" if "kept l w1 w2" for w2 by (rule kept_trans [OF w1 that])
      qed (rule 1(3))
      then show ?thesis using Inr poll x w1 by (subst poll_rounds.simps) simp
    qed (subst poll_rounds.simps, use Inr polled in auto)
  qed (subst poll_rounds.simps, use tame_fd_of [of "opt_proxy_socket option" w] in auto)
qed

lemma main_loop_result:
  assumes "popts p a = Some option" "main_loop (Ref a) p = Inr p'"
  shows "\<exists>w1. p' = p\<lparr>wd := wd p'\<rparr> \<and> later (wd p) w1 \<and> poll_failed (opt_epoll_fd option) w1 (wd p')"
proof -
  obtain w' where w': "poll_rounds option (wd p) = Inr w'" "p' = p\<lparr>wd := w'\<rparr>"
    using assms by (auto simp: main_loop_def load_opt_def seq_Inr_iff)
  then show ?thesis using gives_Inr [OF poll_rounds_result w'(1)] by auto
qed

text \<open>C5: The event loop ends for one reason only. When \<open>main_loop\<close> returns, the last thing that happened
  is a call of \<open>epoll_wait\<close> that failed with an error other than \<open>EINTR\<close>: no event, no
  closed connection and no failure of a handler ends it. (A script that never fails is waited on for ever.)\<close>

theorem main_loop_ends_with_failed_wait:
  assumes "popts p a = Some option" "main_loop (Ref a) p = Inr p'"
  shows "\<exists>answers r. script (wd p) = answers @ r # script (wd p') \<and>
    rv (r (Epoll_wait (opt_epoll_fd option))) = -1 \<and> err (r (Epoll_wait (opt_epoll_fd option))) \<noteq> EINTR \<and>
    hd (trace (wd p')) = Epoll_wait (opt_epoll_fd option)"
proof -
  obtain w1 where w1: "later (wd p) w1" "poll_failed (opt_epoll_fd option) w1 (wd p')"
    using main_loop_result [OF assms] by blast
  obtain r where r: "script w1 = r # script (wd p')" "rv (r (Epoll_wait (opt_epoll_fd option))) = -1"
    "err (r (Epoll_wait (opt_epoll_fd option))) \<noteq> EINTR"
    "wd p' = w1\<lparr>script := script (wd p'), trace := Epoll_wait (opt_epoll_fd option) # trace w1\<rparr>"
    using w1(2) unfolding poll_failed_def by blast
  have "hd (trace (wd p')) = Epoll_wait (opt_epoll_fd option)" by (subst r(4)) simp
  moreover obtain answers where "script (wd p) = answers @ script w1"
    using w1(1) by (auto simp: later_def suffix_def)
  ultimately show ?thesis using r(1-3) by auto
qed

definition failing :: "errno \<Rightarrow> call \<Rightarrow> reply" where
  "failing e c = (answer (-1) c)\<lparr>err := e\<rparr>"

definition loop_proc :: "(call \<Rightarrow> reply) list \<Rightarrow> proc" where
  "loop_proc rs = (demo_proc rs)\<lparr>popts := [0 \<mapsto> demo_option\<lparr>opt_proxy_socket := Ref 0\<rparr>]\<rparr>"

lemma loop_proc_run:
  "\<exists>p'. main_loop (Ref 0) (loop_proc [failing EINTR, failing EOTHER, answer 0]) = Inr p' \<and>
     script (wd p') = [answer 0]"
  by (simp add: main_loop_def loop_proc_def load_opt_def poll_rounds.simps fd_of_def load_socket_def demo_def boot_def
      session_polling_def sys_def failing_def answer_def demo_option_def demo_proc_def)

theorem main_loop_ends_with_failed_wait_witness:
  "\<exists>p'. main_loop (Ref 0) (loop_proc [failing EINTR, failing EOTHER, answer 0]) = Inr p' \<and>
     hd (trace (wd p')) = Epoll_wait 3"
proof -
  obtain p' where p': "main_loop (Ref 0) (loop_proc [failing EINTR, failing EOTHER, answer 0]) = Inr p'"
    using loop_proc_run by blast
  have "popts (loop_proc rs) 0 = Some (demo_option\<lparr>opt_proxy_socket := Ref 0\<rparr>)" for rs by (simp add: loop_proc_def)
  from main_loop_ends_with_failed_wait [OF this p'] p' show ?thesis by (auto simp: demo_option_def)
qed



text \<open>C6: The event loop keeps the list of sessions a well-formed list of sessions, and never hangs in it: if the list is
  a ring of sessions when the loop starts, then, whatever clients, servers and the kernel do, no search of the list
  goes round for ever, and when \<open>main_loop\<close> returns the list is a ring of sessions again.\<close>

theorem main_loop_session_list:
  assumes "popts p a = Some option" "opt_session_list option = Ref l" "lists_ok l (wd p)"
  shows "main_loop (Ref a) p \<noteq> Inl Out_of_fuel \<and> (\<forall>p'. main_loop (Ref a) p = Inr p' \<longrightarrow> lists_ok l (wd p'))"
proof -
  have "tame (main_loop (Ref a) p) (\<lambda>p'. lists_ok l (wd p'))"
    using assms(1) tame_mono [OF poll_rounds_kept [OF assms(2,3)]] by (auto simp: main_loop_def load_opt_def kept_def)
  then show ?thesis by (cases "main_loop (Ref a) p") auto
qed

theorem main_loop_session_list_witness:
  "\<exists>p'. main_loop (Ref 0) (loop_proc [failing EINTR, failing EOTHER, answer 0]) = Inr p' \<and> lists_ok 6 (wd p')"
proof -
  let ?p = "loop_proc [failing EINTR, failing EOTHER, answer 0]"
  obtain p' where p': "main_loop (Ref 0) ?p = Inr p'" using loop_proc_run by blast
  have d: "popts ?p 0 = Some (demo_option\<lparr>opt_proxy_socket := Ref 0\<rparr>)"
    "opt_session_list (demo_option\<lparr>opt_proxy_socket := Ref 0\<rparr>) = Ref 6" by (simp_all add: loop_proc_def demo_option_def)
  have "lists_ok 6 (wd ?p)" unfolding lists_ok_def
    using demo_rings(2) by (intro exI [of _ "[4]"]) (simp add: loop_proc_def demo_proc_def, simp add: demo_def)
  from main_loop_session_list [OF d this] p' show ?thesis by blast
qed

end
