(* ===== verification/OneJob.thy ===== *)
theory OneJob
  imports Pool
begin

section \<open>thread.c: a pool with one job\<close>

text \<open>
  The way \<open>main\<close> uses the pool: one job is added before any worker has started. Then the crash that several
  workers can run into (pulling from an empty queue) cannot happen, with any number of workers in any
  schedule: the semaphore has been posted once, so only one worker gets to the queue.
\<close>

fun token :: "pc \<Rightarrow> bool" where
  "token Woken = True" | "token Counting = True" | "token Pulling = True" | "token _ = False"

fun holder :: "pc \<Rightarrow> bool" where
  "holder (Pulled x) = True" | "holder (Ran x) = True" | "holder _ = False"

definition tokens :: "pc list \<Rightarrow> nat" where "tokens cs = length (filter token cs)"

definition holders :: "pc list \<Rightarrow> nat" where "holders cs = length (filter holder cs)"

lemma counts_simps [simp]:
  "tokens (as @ c # bs) = tokens (as @ bs) + (if token c then 1 else 0)"
  "holders (as @ c # bs) = holders (as @ bs) + (if holder c then 1 else 0)"
  by (simp_all add: tokens_def holders_def)

text \<open>The job waits in the queue, with one permission to fetch it at most; or it has been fetched, and at most
  one worker has it.\<close>

definition solo :: "nat \<Rightarrow> nat \<Rightarrow> nat \<Rightarrow> tmem \<Rightarrow> pc list \<Rightarrow> bool" where
  "solo p q j m cs \<longleftrightarrow> (\<exists>n. pool_at p q n m) \<and> (\<forall>x. Pulled x \<in> set cs \<or> Ran x \<in> set cs \<longrightarrow> x = Ref j) \<and>
     (\<exists>v. queue_sem q m = Some v \<and> 0 \<le> v \<and>
       (queue_ok q m [j] \<and> v + int (tokens cs) \<le> 1 \<and> holders cs = 0 \<or>
        queue_ok q m [] \<and> v = 0 \<and> tokens cs = 0 \<and> holders cs \<le> 1 \<and> (holders cs = 1 \<longrightarrow> jobs m j \<noteq> None)))"

text \<open>Steps that neither fetch the job nor touch the semaphore.\<close>

lemma not_holder: "\<not> holder c \<Longrightarrow> c \<noteq> Pulled x \<and> c \<noteq> Ran x"
  by auto

lemma queue_sem_frame [simp]:
  "queue_sem q (m\<lparr>pools := f\<rparr>) = queue_sem q m" "queue_sem q (m\<lparr>jobs := g\<rparr>) = queue_sem q m"
  by (simp_all add: queue_sem_def cong: option.case_cong ptr.case_cong)

lemma solo_move:
  assumes "solo p q j m (as @ c # bs)" "token c' \<longrightarrow> token c" "\<not> holder c" "\<not> holder c'"
  shows "solo p q j m (as @ c' # bs)"
proof -
  have "tokens (as @ c' # bs) \<le> tokens (as @ c # bs)" "holders (as @ c' # bs) = holders (as @ c # bs)"
    using assms(2-4) by simp_all
  moreover have "x = Ref j" if "Pulled x \<in> set (as @ c' # bs) \<or> Ran x \<in> set (as @ c' # bs)" for x
    using assms(1) that not_holder [OF assms(4), of x] by (auto simp: solo_def)
  ultimately show ?thesis using assms(1) unfolding solo_def by (auto simp del: counts_simps)
qed

lemma solo_pools:
  assumes "solo p q j m cs" "tp_job_queue P = Ref q"
  shows "solo p q j (m\<lparr>pools := (pools m)(p \<mapsto> P)\<rparr>) cs"
  using assms by (auto simp: solo_def pool_at_def)

lemma solo_wait:
  assumes s: "solo p q j m (as @ Waiting # bs)" and st: "worker_step p Waiting m = r"
  shows "r = Inl Blocked \<or> (\<exists>c' m'. r = Inr (c', m') \<and> solo p q j m' (as @ c' # bs))"
proof -
  obtain P Q t x v where P: "pools m p = Some P" "tp_job_queue P = Ref q" "queues m q = Some Q" "has_jobs Q = Ref t"
    "sems m t = Some x" "state_value x = Some v"
    using s by (auto simp: solo_def pool_at_def queue_ok_def queue_sem_def)
  show ?thesis
  proof (cases "v = 1")
    case True
    let ?m = "m\<lparr>sems := (sems m)(t \<mapsto> x\<lparr>state_value := Some 0\<rparr>)\<rparr>"
    have "r = Inr (Woken, ?m)" using st P True by (simp add: binary_sem_wait_def tmem_defs)
    moreover have "queue_sem q m = Some 1" using P True by (simp add: queue_sem_def)
    then have "queue_ok q m [j]" "tokens (as @ bs) = 0" "holders (as @ bs) = 0" "\<exists>n. pool_at p q n m"
      "\<forall>x. Pulled x \<in> set (as @ bs) \<or> Ran x \<in> set (as @ bs) \<longrightarrow> x = Ref j"
      using s by (auto simp: solo_def)
    moreover from this(1) have "queue_ok q ?m [j]" by (rule queue_ok_sem)
    ultimately show ?thesis using P by (auto simp: solo_def pool_at_def queue_sem_def)
  next
    case False
    then show ?thesis using st P by (simp add: binary_sem_wait_def)
  qed
qed

lemma solo_pull:
  assumes s: "solo p q j m (as @ Pulling # bs)" and st: "worker_step p Pulling m = r"
  shows "\<exists>c' m'. r = Inr (c', m') \<and> solo p q j m' (as @ c' # bs)"
proof -
  obtain P where P: "pools m p = Some P" "tp_job_queue P = Ref q"
    using s by (auto simp: solo_def pool_at_def)
  have q: "queue_ok q m [j]" "queue_sem q m = Some 0" "tokens (as @ bs) = 0" "holders (as @ bs) = 0"
    using s by (auto simp: solo_def)
  obtain m1 where m1: "job_queue_pull (Ref q) m = Inr (Ref j, m1)" "queue_ok q m1 []" "jobs m1 = jobs m" "pools m1 = pools m"
    "queue_sem q m1 = Some 0"
    using job_queue_pull_ok [OF q(1)] q(2) by auto
  have "jobs m j \<noteq> None" using q(1) chain_dom [of "jobs m" "[j]" j] by (auto simp: queue_ok_def)
  then have "solo p q j m1 (as @ Pulled (Ref j) # bs)"
    using s m1 q(3,4) by (auto simp: solo_def pool_at_def)
  then show ?thesis using st P m1(1) by auto
qed

lemma solo_holding:
  assumes "solo p q j m (as @ c # bs)" "holder c"
  shows "\<exists>n. pool_at p q n m" "queue_sem q m = Some 0" "queue_ok q m []" "tokens (as @ bs) = 0" "holders (as @ bs) = 0"
    "jobs m j \<noteq> None" "c = Pulled (Ref j) \<or> c = Ran (Ref j)"
    "\<forall>x. Pulled x \<in> set (as @ bs) \<or> Ran x \<in> set (as @ bs) \<longrightarrow> x = Ref j"
proof -
  have k: "holders (as @ c # bs) \<noteq> 0" using assms(2) by simp
  have "\<exists>v. queue_sem q m = Some v \<and> 0 \<le> v \<and> queue_ok q m [] \<and> v = 0 \<and> tokens (as @ c # bs) = 0 \<and>
      holders (as @ c # bs) \<le> 1 \<and> (holders (as @ c # bs) = 1 \<longrightarrow> jobs m j \<noteq> None)"
    using assms(1) k unfolding solo_def by blast
  then show "queue_sem q m = Some 0" "queue_ok q m []" "tokens (as @ bs) = 0" "holders (as @ bs) = 0" "jobs m j \<noteq> None"
    using assms(2) by (auto split: if_splits)
  have only: "x = Ref j" if "Pulled x \<in> set (as @ c # bs) \<or> Ran x \<in> set (as @ c # bs)" for x
    using assms(1) that unfolding solo_def by blast
  show "\<forall>x. Pulled x \<in> set (as @ bs) \<or> Ran x \<in> set (as @ bs) \<longrightarrow> x = Ref j" using only by auto
  show "c = Pulled (Ref j) \<or> c = Ran (Ref j)" using assms(2) only by (cases c) auto
  show "\<exists>n. pool_at p q n m" using assms(1) unfolding solo_def by blast
qed

lemma solo_holder_move:
  assumes "solo p q j m (as @ c # bs)" "holder c" "m' = m \<and> c' = Ran (Ref j) \<or> m' = m\<lparr>jobs := (jobs m)(j := None)\<rparr> \<and> c' = Uncounting"
  shows "solo p q j m' (as @ c' # bs)"
proof -
  note h = solo_holding [OF assms(1,2)]
  have "queue_ok q m' []" using assms(3) h(3) queue_ok_free_job [OF h(3), of j] by auto
  moreover have "queue_sem q m' = Some 0" "\<exists>n. pool_at p q n m'" using assms(3) h(1,2) by (auto simp: pool_at_def)
  moreover have "\<forall>x. Pulled x \<in> set (as @ c' # bs) \<or> Ran x \<in> set (as @ c' # bs) \<longrightarrow> x = Ref j"
    using assms(3) h(8) by auto
  moreover have "tokens (as @ c' # bs) = 0" "holders (as @ c' # bs) \<le> 1" "holders (as @ c' # bs) = 1 \<longrightarrow> jobs m' j \<noteq> None"
    using assms(3) h(4-6) by auto
  ultimately show ?thesis unfolding solo_def by blast
qed

lemma solo_step:
  assumes s: "solo p q j m (as @ c # bs)" and st: "worker_step p c m = r"
  shows "r = Inl Blocked \<or> (\<exists>c' m'. r = Inr (c', m') \<and> solo p q j m' (as @ c' # bs))"
proof -
  obtain P where P: "pools m p = Some P" "tp_job_queue P = Ref q" using s by (auto simp: solo_def pool_at_def)
  show ?thesis
  proof (cases c)
    case Waiting
    then show ?thesis using solo_wait [of p q j m as bs r] s st by blast
  next
    case Pulling
    then show ?thesis using solo_pull [of p q j m as bs r] s st by blast
  next
    case (Pulled x)
    then have h: "x = Ref j" "jobs m j \<noteq> None" using solo_holding [OF s] by auto
    have "solo p q j m (as @ Ran (Ref j) # bs)" by (rule solo_holder_move [OF s]) (simp_all add: Pulled)
    then show ?thesis using st h Pulled by auto
  next
    case (Ran x)
    then have h: "x = Ref j" "jobs m j \<noteq> None" using solo_holding [OF s] by auto
    have "solo p q j (m\<lparr>jobs := (jobs m)(j := None)\<rparr>) (as @ Uncounting # bs)"
      by (rule solo_holder_move [OF s]) (simp_all add: Ran)
    then show ?thesis using st h Ran by (auto simp: tfree_def)
  next
    case Woken
    then show ?thesis using st solo_move [OF s] by auto
  next
    case Looping
    then show ?thesis using st solo_move [OF s] by auto
  next
    case Gone
    then show ?thesis using st by auto
  qed (use st P solo_pools solo_move [OF s] in \<open>auto simp: tmem_defs\<close>)
qed

end
