(* ===== verification/Program.thy ===== *)
theory Program
  imports MainLoop OneJob
begin

section \<open>main.c: the program as a whole\<close>

text \<open>
  \<open>main\<close> of \<open>src/main.c\<close>, in the two parts between which the workers of the thread pool run: up to
  adding the event loop as a job, and from the wait for the pool on. The workers run as in \<open>Pool\<close>, with
  the function of a job now called for real. The lemmas compose the components: start-up with a good
  and with a bad configuration file, and the event loop as the one job of the pool.
\<close>

subsection \<open>main\<close>

record program =
  prc :: proc
  logs :: log_state

text \<open>The address of \<open>main_loop\<close> as a job function.\<close>

definition main_loop_ptr :: nat where "main_loop_ptr = 1"

definition main_free :: "ptr \<Rightarrow> program \<Rightarrow> program cres" where
  "main_free option s =
     (let s = s\<lparr>logs := log_free (logs s)\<rparr> in
     seq (option_free option (prc s)) (\<lambda>(_, p). Inr (s\<lparr>prc := p\<rparr>)))"

text \<open>
  From the beginning to \<open>thread_pool_add_work\<close>; the result is the option structure, or \<open>None\<close> when
  \<open>main\<close> has returned. \<open>log_file\<close>, \<open>null_opens\<close> and \<open>buffer_granted\<close> are the answers that
  \<open>log_init\<close> gets, \<open>file\<close> the configuration file. \<open>global_option\<close> points to the structure, which does
  not change any more until it is freed: the world gets its contents.
\<close>

definition main_start ::
  "string option \<Rightarrow> bool \<Rightarrow> bool \<Rightarrow> char list list \<Rightarrow> string option \<Rightarrow> program \<Rightarrow> (ptr option \<times> program) cres" where
  "main_start log_contents null_opens buffer_granted argv file s =
     (case log_init log_contents null_opens buffer_granted (logs s) of (ret, l) \<Rightarrow>
     let s = s\<lparr>logs := l\<rparr> in
     if ret \<noteq> LOG_INIT_SUCCESS then Inr (None, s) else
     seq (option_create THREAD_AMOUNT (prc s)) (\<lambda>(option, p).
     let s = s\<lparr>prc := p\<rparr> in
     if option = Null then Inr (None, s) else
     seq (get_options option argv file (prc s)) (\<lambda>(ret, p).
     let s = s\<lparr>prc := p\<rparr> in
     if ret \<noteq> OPTION_GET_SUCCESS then seq (main_free option s) (\<lambda>s. Inr (None, s)) else
     seq (load_opt option (prc s)) (\<lambda>d.
     let p = (prc s)\<lparr>wd := (wd (prc s))\<lparr>goption := Some d\<rparr>\<rparr> in
     seq (on_td (thread_pool_add_work (opt_thread_pool d) main_loop_ptr option) p) (\<lambda>(ret, p).
     let s = s\<lparr>prc := p\<rparr> in
     if ret \<noteq> THREAD_SUCCESS then seq (main_free option s) (\<lambda>s. Inr (None, s))
     else Inr (Some option, s))))))"

text \<open>The rest: both results of the wait lead to \<open>main_free\<close>.\<close>

definition main_finish :: "ptr \<Rightarrow> program \<Rightarrow> program cres" where
  "main_finish option s =
     seq (load_opt option (prc s)) (\<lambda>d.
     seq (on_td (thread_pool_wait (opt_thread_pool d)) (prc s)) (\<lambda>(_, p).
     main_free option (s\<lparr>prc := p\<rparr>)))"

subsection \<open>The workers\<close>

text \<open>Calling the function of a job.\<close>

definition run_job :: "nat \<Rightarrow> proc \<Rightarrow> proc cres" where
  "run_job j p =
     seq (deref (jobs (td p)) (Ref j)) (\<lambda>x.
     if jb_function x = main_loop_ptr then main_loop (jb_arg x) p else Inr p)"

text \<open>The process together with the pool it has the memory of; worker \<open>i\<close> makes its next step, and when this
  is the call of a job, the job is run.\<close>

definition machine_step :: "nat \<Rightarrow> nat \<Rightarrow> proc \<times> pstate \<Rightarrow> (proc \<times> pstate) cres" where
  "machine_step pool i m =
     (case m of (p, s) \<Rightarrow>
      if i \<ge> length (pcs s) then Inl Blocked else
      (case pool_act pool (Work i) s of
         None \<Rightarrow> Inl Blocked
       | Some s' \<Rightarrow>
           (case crashed s' of Some u \<Rightarrow> Inl (UB u)
            | None \<Rightarrow> seq (foldc run_job (called (pcs s ! i)) p) (\<lambda>p. Inr (p\<lparr>td := tm s'\<rparr>, s')))))"

text \<open>The steps of a schedule: which worker moves next.\<close>

definition run_machine :: "nat \<Rightarrow> nat list \<Rightarrow> proc \<times> pstate \<Rightarrow> (proc \<times> pstate) cres" where
  "run_machine pool sch m = foldc (machine_step pool) sch m"

text \<open>The machine when \<open>main\<close> goes to wait: no worker has made a step, one job was added.\<close>

definition machine_of :: "proc \<Rightarrow> nat list \<Rightarrow> proc \<times> pstate" where
  "machine_of p js = (p, \<lparr>tm = td p, pcs = replicate (nat THREAD_AMOUNT) Starting, ran = [], added = js, crashed = None\<rparr>)"

subsection \<open>The event loop is run once\<close>

text \<open>What \<open>main\<close> has set up when it goes to wait: the options \<open>d\<close> at \<open>a\<close>, their pool \<open>pl\<close> with the queue \<open>q\<close>,
  and in it one job \<open>j\<close>, the event loop on these options.\<close>

definition loop_queued :: "proc \<Rightarrow> nat \<Rightarrow> option_s \<Rightarrow> nat \<Rightarrow> nat \<Rightarrow> nat \<Rightarrow> bool" where
  "loop_queued p a d pl q j \<longleftrightarrow> popts p a = Some d \<and> opt_thread_pool d = Ref pl \<and> pool_at pl q 0 (td p) \<and>
     queue_ok q (td p) [j] \<and> queue_sem q (td p) = Some 1 \<and> j < tbrk (td p) \<and>
     (\<exists>x. jobs (td p) j = Some x \<and> jb_function x = main_loop_ptr \<and> jb_arg x = Ref a)"

definition machine_ok :: "proc \<Rightarrow> nat \<Rightarrow> option_s \<Rightarrow> nat \<Rightarrow> nat \<Rightarrow> nat \<Rightarrow> proc \<times> pstate \<Rightarrow> bool" where
  "machine_ok p0 a d pl q j = (\<lambda>(p, s). (\<exists>js. pool_inv pl q s js) \<and> crashed s = None \<and> added s = [j] \<and>
     td p = tm s \<and> popts p = popts p0 \<and>
     (if ran s = []
      then wd p = wd p0 \<and> (\<exists>x. jobs (tm s) j = Some x \<and> jb_function x = main_loop_ptr \<and> jb_arg x = Ref a)
      else ran s = [j] \<and> poll_rounds d (wd p0) = Inr (wd p)))"

lemma machine_of_ok:
  assumes "loop_queued p a d pl q j"
  shows "machine_ok p a d pl q j (machine_of p [j])"
  using assms by (auto simp: loop_queued_def machine_ok_def machine_of_def pool_inv_def)

lemma worker_step_jobs:
  assumes "worker_step pl c m = Inr (c', m')"
  shows "jobs m' = jobs m \<or> (\<exists>j. c = Ran (Ref j))"
proof (cases c)
  case (Ran x)
  then show ?thesis using assms by (cases x) (auto simp: tfree_def)
next
  case Pulling
  then show ?thesis using assms
    by (auto simp: job_queue_pull_def tmem_defs binary_sem_post_def seq_Inr_iff deref_Inr_iff Let_def split: if_splits)
qed (use assms in \<open>auto simp: tmem_defs seq_Inr_iff deref_Inr_iff binary_sem_wait_def split: if_splits option.splits\<close>)

lemma only_job:
  assumes "pool_inv pl q s js" "added s = [j]" "i < length (pcs s)" "called (pcs s ! i) = [k]"
  shows "k = j \<and> ran s = []"
proof -
  have "k \<in># mset (concat (map called (pcs s)))" using assms(3,4) by (force simp: in_set_conv_nth)
  then obtain M where M: "mset (concat (map called (pcs s))) = add_mset k M" by (metis insert_DiffM)
  have "{#j#} = mset js + mset (concat (map called (pcs s))) + mset (ran s)"
    using assms(1,2) by (simp add: pool_inv_def)
  then have "{#j#} = add_mset k (mset js + M + mset (ran s))" by (simp add: M)
  then show ?thesis by simp
qed

lemma machine_step_ok:
  assumes ok: "machine_ok p0 a d pl q j (p, s)" and d: "popts p0 a = Some d"
    and st: "machine_step pl i (p, s) = Inr (p', s')"
  shows "machine_ok p0 a d pl q j (p', s')"
proof -
  let ?c = "pcs s ! i"
  have i: "i < length (pcs s)" using st by (auto simp: machine_step_def split: if_splits)
  obtain js where inv: "pool_inv pl q s js" using ok by (auto simp: machine_ok_def)
  have act: "pool_act pl (Work i) s = Some s'" "crashed s' = None"
    using st i by (auto simp: machine_step_def seq_Inr_iff split: option.splits)
  obtain c' m' where m': "worker_step pl ?c (tm s) = Inr (c', m')"
    "s' = s\<lparr>tm := m', pcs := (pcs s)[i := c'], ran := ran s @ called ?c\<rparr>"
    using act i ok by (auto simp: pool_act_def machine_ok_def split: sum.splits stop.splits prod.splits)
  have p': "seq (foldc run_job (called ?c) p) (\<lambda>p. Inr (p\<lparr>td := tm s'\<rparr>)) = Inr p'"
    using st i act by (auto simp: machine_step_def seq_Inr_iff)
  obtain js' where inv': "pool_inv pl q s' js'" using pool_act_work_inv [OF inv act] by blast
  show ?thesis
  proof (cases "called ?c = []")
    case True
    have "jobs m' j = jobs (tm s) j" if "ran s = []"
    proof -
      have "Ran (Ref k) \<notin> set (pcs s)" for k using inv that by (auto simp: pool_inv_def)
      then have "?c \<noteq> Ran (Ref k)" for k using nth_mem [OF i] by metis
      then show ?thesis using worker_step_jobs [OF m'(1)] by auto
    qed
    then show ?thesis using True ok inv' act(2) p' by (auto simp: machine_ok_def m'(2))
  next
    case False
    then obtain k where k: "called ?c = [k]" by (auto simp: called_def split: pc.splits ptr.splits)
    have kj: "k = j" "ran s = []" using only_job [OF inv _ i k] ok by (auto simp: machine_ok_def)
    obtain x where x: "jobs (tm s) j = Some x" "jb_function x = main_loop_ptr" "jb_arg x = Ref a"
      using ok kj(2) by (auto simp: machine_ok_def)
    have "foldc run_job [j] p = main_loop (Ref a) p"
      using x ok by (simp add: run_job_def machine_ok_def) (cases "main_loop (Ref a) p"; simp)
    then obtain w where "poll_rounds d (wd p0) = Inr w" "p' = p\<lparr>wd := w, td := tm s'\<rparr>"
      using p' ok d kj by (auto simp: k main_loop_def load_opt_def machine_ok_def seq_Inr_iff)
    then show ?thesis using ok inv' act(2) kj k by (auto simp: machine_ok_def m'(2))
  qed
qed

lemma run_machine_ok:
  assumes d: "popts p0 a = Some d"
  shows "machine_ok p0 a d pl q j m \<Longrightarrow> run_machine pl sch m = Inr m' \<Longrightarrow> machine_ok p0 a d pl q j m'"
proof (induction sch arbitrary: m)
  case Nil
  then show ?case by (simp add: run_machine_def)
next
  case (Cons i sch)
  then obtain m1 where m1: "machine_step pl i m = Inr m1" "run_machine pl sch m1 = Inr m'"
    by (auto simp: run_machine_def seq_Inr_iff)
  have "machine_ok p0 a d pl q j m1"
    using machine_step_ok [OF _ d] Cons.prems(1) m1(1) by (cases m; cases m1) blast
  then show ?case using Cons.IH m1(2) by blast
qed

lemma machine_idle:
  assumes "machine_ok p0 a d pl q j (p, t)" "thread_pool_wait (Ref pl) (td p) = Inr (THREAD_SUCCESS, m)"
  shows "ran t = [j] \<and> poll_rounds d (wd p0) = Inr (wd p) \<and> (\<forall>c \<in> set (pcs t). \<not> counted c)"
proof -
  obtain js where inv: "pool_inv pl q t js" using assms(1) by (auto simp: machine_ok_def)
  have w: "thread_pool_wait (Ref pl) (tm t) = Inr (THREAD_SUCCESS, m)" using assms by (simp add: machine_ok_def)
  have idle: "js = []" "filter counted (pcs t) = []" using pool_idle [OF inv w] by auto
  have "mset (ran t) = mset (added t)" using inv idle idle_no_calls [of "pcs t"] by (simp add: pool_inv_def)
  then have "ran t \<noteq> []" using assms(1) by (auto simp: machine_ok_def)
  then show ?thesis using assms(1) idle(2) by (auto simp: machine_ok_def filter_empty_conv)
qed

text \<open>C3: The wait in \<open>main\<close> is a wait for the event loop. However the ten workers are scheduled, when
  \<open>thread_pool_wait\<close> returns the one job has been run, exactly once; what the process looks like is what
  \<open>main_loop\<close> on the options makes of the state that \<open>main\<close> had set up; and no worker is still at work on
  it. So \<open>main_free\<close> never pulls the options from under a running event loop.\<close>

theorem main_waits_for_event_loop:
  assumes "loop_queued p0 a d pl q j" "run_machine pl sch (machine_of p0 [j]) = Inr (p, t)"
    and "thread_pool_wait (Ref pl) (td p) = Inr (THREAD_SUCCESS, m)"
  shows "main_loop (Ref a) p0 = Inr (p0\<lparr>wd := wd p\<rparr>) \<and> popts p = popts p0 \<and> ran t = [j] \<and>
    (\<forall>c \<in> set (pcs t). \<not> counted c)"
proof -
  have d: "popts p0 a = Some d" using assms(1) by (simp add: loop_queued_def)
  have ok: "machine_ok p0 a d pl q j (p, t)" by (rule run_machine_ok [OF d machine_of_ok [OF assms(1)] assms(2)])
  show ?thesis
    using machine_idle [OF ok assms(3)] ok d by (simp add: main_loop_def load_opt_def machine_ok_def)
qed

definition wait_proc :: proc where
  "wait_proc = (loop_proc [failing EINTR, failing EOTHER])\<lparr>
     popts := [0 \<mapsto> demo_option\<lparr>opt_proxy_socket := Ref 0, opt_thread_pool := Ref 2\<rparr>],
     td := (tm (demo_pool 10))\<lparr>jobs := [3 \<mapsto> \<lparr>jb_prev = Null, jb_function = main_loop_ptr, jb_arg = Ref 0\<rparr>],
       sems := [0 \<mapsto> \<lparr>state_value = Some 1\<rparr>],
       queues := [1 \<mapsto> \<lparr>front_job = Ref 3, rear_job = Ref 3, has_jobs = Ref 0, job_count = 1\<rparr>], tbrk := 4\<rparr>\<rparr>"

lemma wait_proc_queued:
  "loop_queued wait_proc 0 (demo_option\<lparr>opt_proxy_socket := Ref 0, opt_thread_pool := Ref 2\<rparr>) 2 1 3"
  by (simp add: loop_queued_def wait_proc_def demo_option_def pool_at_def queue_ok_def queue_sem_def demo_pool_def)

lemma wait_proc_result:
  "map_sum id (\<lambda>(p, t). (length (script (wd p)), map_sum id fst (thread_pool_wait (Ref 2) (td p))))
     (run_machine 2 [4, 4, 7, 4, 4, 4, 4, 7, 4, 4, 4] (machine_of wait_proc [3])) = Inr (0, Inr THREAD_SUCCESS)"
  by code_simp

theorem main_waits_for_event_loop_witness:
  "\<exists>p' p t. run_machine 2 [4, 4, 7, 4, 4, 4, 4, 7, 4, 4, 4] (machine_of wait_proc [3]) = Inr (p, t) \<and>
     main_loop (Ref 0) wait_proc = Inr p' \<and> wd p' = wd p \<and> ran t = [3]"
proof -
  obtain p t where pt: "run_machine 2 [4, 4, 7, 4, 4, 4, 4, 7, 4, 4, 4] (machine_of wait_proc [3]) = Inr (p, t)"
    "map_sum id fst (thread_pool_wait (Ref 2) (td p)) = Inr THREAD_SUCCESS"
    using wait_proc_result by (cases "run_machine 2 [4, 4, 7, 4, 4, 4, 4, 7, 4, 4, 4] (machine_of wait_proc [3])") auto
  obtain m where "thread_pool_wait (Ref 2) (td p) = Inr (THREAD_SUCCESS, m)"
    using pt(2) by (cases "thread_pool_wait (Ref 2) (td p)") auto
  from main_waits_for_event_loop [OF wait_proc_queued pt(1) this] pt(1) show ?thesis by auto
qed

subsection \<open>The pool adds no crash\<close>

lemma machine_of_solo:
  assumes "loop_queued p a d pl q j" "machine_of p [j] = (p', s)"
  shows "solo pl q j (tm s) (pcs s)"
  using assms by (auto simp: loop_queued_def machine_of_def solo_def tokens_def holders_def)

lemma machine_step_solo:
  assumes s: "solo pl q j (tm s) (pcs s)" and st: "machine_step pl i (p, s) = r"
  shows "r = Inl Blocked \<or> (\<exists>e. foldc run_job (called (pcs s ! i)) p = Inl e \<and> r = Inl e \<and> i < length (pcs s)) \<or>
    (\<exists>p' s'. r = Inr (p', s') \<and> solo pl q j (tm s') (pcs s'))"
proof (cases "i < length (pcs s)")
  case True
  define as bs where "as = take i (pcs s)" and "bs = drop (Suc i) (pcs s)"
  let ?c = "pcs s ! i"
  have pcs: "pcs s = as @ ?c # bs" "\<And>c. (pcs s)[i := c] = as @ c # bs"
    using True by (simp_all add: as_def bs_def id_take_nth_drop [symmetric] upd_conv_take_nth_drop)
  have "solo pl q j (tm s) (as @ ?c # bs)" using s pcs(1) by simp
  from solo_step [OF this refl] consider "worker_step pl ?c (tm s) = Inl Blocked"
    | c' m' where "worker_step pl ?c (tm s) = Inr (c', m')" "solo pl q j m' (as @ c' # bs)" by blast
  then show ?thesis
  proof cases
    case 1
    then have "pool_act pl (Work i) s = None" using True by (simp add: pool_act_def)
    then show ?thesis using st True by (simp add: machine_step_def)
  next
    case 2
    let ?s = "s\<lparr>tm := m', pcs := as @ c' # bs, ran := ran s @ called ?c\<rparr>"
    show ?thesis
    proof (cases "crashed s")
      case None
      then have act: "pool_act pl (Work i) s = Some ?s" using True 2(1) pcs(2) by (simp add: pool_act_def)
      show ?thesis
        using st True act None 2(2)
        by (cases "foldc run_job (called ?c) p") (auto simp: machine_step_def)
    qed (use st True in \<open>simp add: machine_step_def pool_act_def\<close>)
  qed
qed (use st in \<open>simp add: machine_step_def\<close>)

lemma job_stops:
  assumes ok: "machine_ok p0 a d pl q j (p, s)" and d: "popts p0 a = Some d" and i: "i < length (pcs s)"
    and st: "foldc run_job (called (pcs s ! i)) p = Inl e"
  shows "main_loop (Ref a) p0 = Inl e"
proof -
  obtain k where k: "called (pcs s ! i) = [k]" using st by (auto simp: called_def split: pc.splits ptr.splits)
  obtain js where inv: "pool_inv pl q s js" using ok by (auto simp: machine_ok_def)
  have kj: "k = j" "ran s = []" using only_job [OF inv _ i k] ok by (auto simp: machine_ok_def)
  obtain x where x: "jobs (tm s) j = Some x" "jb_function x = main_loop_ptr" "jb_arg x = Ref a"
    using ok kj(2) by (auto simp: machine_ok_def)
  have "main_loop (Ref a) p = Inl e"
    using st x ok by (simp add: k kj run_job_def machine_ok_def) (cases "main_loop (Ref a) p"; simp)
  moreover have "popts p = popts p0" "wd p = wd p0" using ok kj(2) by (simp_all add: machine_ok_def)
  ultimately show ?thesis using d by (auto simp: main_loop_def load_opt_def seq_Inl_iff)
qed

lemma run_machine_crash:
  assumes d: "popts p0 a = Some d"
  shows "machine_ok p0 a d pl q j (p, s) \<Longrightarrow> solo pl q j (tm s) (pcs s) \<Longrightarrow> run_machine pl sch (p, s) = Inl e \<Longrightarrow> e \<noteq> Blocked \<Longrightarrow>
    main_loop (Ref a) p0 = Inl e"
proof (induction sch arbitrary: p s)
  case Nil
  then show ?case by (simp add: run_machine_def)
next
  case (Cons i sch)
  show ?case
  proof (cases "machine_step pl i (p, s)")
    case (Inl e')
    then have "e' = e" using Cons.prems(3) by (simp add: run_machine_def)
    with Inl Cons.prems(4) machine_step_solo [OF Cons.prems(2) Inl] have
      "foldc run_job (called (pcs s ! i)) p = Inl e" "i < length (pcs s)" by auto
    then show ?thesis using job_stops [OF Cons.prems(1) d] by blast
  next
    case (Inr m)
    obtain p' s' where m: "m = (p', s')" by (cases m)
    have "machine_ok p0 a d pl q j (p', s')" using machine_step_ok [OF Cons.prems(1) d] Inr m by blast
    moreover have "solo pl q j (tm s') (pcs s')" using machine_step_solo [OF Cons.prems(2) Inr] m by auto
    moreover have "run_machine pl sch (p', s') = Inl e" using Cons.prems(3) Inr m by (simp add: run_machine_def)
    ultimately show ?thesis using Cons.IH Cons.prems(4) by blast
  qed
qed


definition crash_proc :: proc where
  "crash_proc = wait_proc\<lparr>popts := [0 \<mapsto> demo_option\<lparr>opt_thread_pool := Ref 2\<rparr>]\<rparr>"

lemma crash_proc_queued: "loop_queued crash_proc 0 (demo_option\<lparr>opt_thread_pool := Ref 2\<rparr>) 2 1 3"
  using wait_proc_queued by (simp add: loop_queued_def crash_proc_def)

lemma crash_proc_result:
  "stopped (run_machine 2 [4, 4, 7, 4, 4, 4, 4, 7, 4, 4, 4] (machine_of crash_proc [3])) = Some (UB Null_deref)"
  by code_simp


subsection \<open>Starting up\<close>

lemma add_work_empty:
  assumes "queue_ok q m []" "threads_ok pl q n n m" "mallocs m = True # bs"
  shows "\<exists>m'. thread_pool_add_work (Ref pl) f x m = Inr (THREAD_SUCCESS, m') \<and> pool_at pl q 0 m' \<and>
    queue_ok q m' [tbrk m] \<and> queue_sem q m' = Some 1 \<and> tbrk m < tbrk m' \<and>
    (\<exists>y. jobs m' (tbrk m) = Some y \<and> jb_function y = f \<and> jb_arg y = x)"
  using assms
  by (auto simp: thread_pool_add_work_def job_queue_push_def queue_ok_def threads_ok_def pool_at_def tmem_defs
      binary_sem_post_def queue_sem_def Let_def)

text \<open>The log is closed and can be opened, and everything \<open>main\<close> asks for up to the configuration file is
  granted: the socket \<open>k\<close>, the epoll descriptor \<open>e\<close>, and the memory; \<open>rs\<close> and \<open>bs\<close> are the answers after that.\<close>

definition boot_granted :: "program \<Rightarrow> int \<Rightarrow> int \<Rightarrow> (call \<Rightarrow> reply) list \<Rightarrow> bool list \<Rightarrow> bool" where
  "boot_granted s k e rs bs \<longleftrightarrow> log_file (logs s) = None \<and>
     (\<exists>om calls. script (wd (prc s)) = om # calls @ rs \<and> rv (om Malloc) \<noteq> 0 \<and> start_granted (wd (prc s)) k e calls) \<and>
     mallocs (td (prc s)) = replicate (4 + 10) True @ bs"

text \<open>What reading the configuration leaves alone.\<close>

definition lists_only :: "world \<Rightarrow> world \<Rightarrow> bool" where
  "lists_only w w' \<longleftrightarrow> socks w' = socks w \<and> clients w' = clients w \<and> servers w' = servers w \<and>
     sessions w' = sessions w \<and> open_fds w' = open_fds w \<and> epoll_regs w' = epoll_regs w \<and> sent w' = sent w \<and>
     set (trace w) \<subseteq> set (trace w')"

lemma insert_lists_only: "gives (server_insert_address l t w) (\<lambda>(r, w'). lists_only w w')"
  by (cases t) (auto simp: server_insert_address_def object_defs malloc_def gives_prims Let_def lists_only_def
      split: option.split intro!: gives_any [where m = "strchr _ _"] gives_any [where m = "atoi _"]
        gives_any [where m = "strncpy _ _ _"])

lemma lists_only_trans: "lists_only w w1 \<Longrightarrow> lists_only w1 w2 \<Longrightarrow> lists_only w w2"
  by (auto simp: lists_only_def)

lemma read_options_lists_only: "gives (read_options opts d f w) (\<lambda>(ok, w'). lists_only w w')"
proof (induction f arbitrary: w rule: measure_induct_rule [where f = length])
  case (less f)
  have refl: "lists_only w w" by (simp add: lists_only_def)
  show ?case
  proof (cases "fgets 4096 f")
    case (Some line)
    obtain data rest where line: "line = (data, rest)" by (cases line)
    have rest: "gives (read_options opts d rest w1) (\<lambda>(ok, w'). lists_only w w')" if "lists_only w w1" for w1
      by (rule gives_mono [OF less]) (use Some line that in \<open>auto dest: fgets_shorter intro: lists_only_trans\<close>)
    have go_on: "gives (server_insert_address l t w) (\<lambda>x. gives (case x of (u, w') \<Rightarrow> read_options opts d rest w')
        (\<lambda>(ok, w'). lists_only w w'))" for l t
      by (rule gives_mono [OF insert_lists_only]) (auto intro: rest)
    show ?thesis
      using Some line refl
      by (subst read_options.simps) (auto intro!: gives_any [where m = "skip_ws _"] gives_any [where m = "read_key _ _"]
        gives_any [where m = "keycmp _ _"] gives_any [where m = "deref _ _"] go_on)
  qed (subst read_options.simps, simp add: refl)
qed

lemma no_arguments: "get_option_from_argument [x] = Inr ARGUMENT_NOT_FOUND"
  by (simp add: get_option_from_argument_def)

lemma log_opens: "log_file l = None \<Longrightarrow> \<exists>l'. log_init (Some c) True True l = (LOG_INIT_SUCCESS, l') \<and> log_file l' = Some c"
  by (simp add: log_init_def Let_def)

lemma set_global_option [simp]:
  "server_get_available_address l (w\<lparr>goption := g\<rparr>) = server_get_available_address l w"
  "load_saddr y (w\<lparr>goption := g\<rparr>) = load_saddr y w"
  by (cases l; simp add: server_get_available_address_def ask_links_def) (cases y; simp add: load_saddr_def)

text \<open>C8: A good start. When the log opens, all calls are granted, there is no argument, and the configuration file
  lists the servers \<open>ss\<close>, \<open>main\<close> comes to its wait: the log is open, the proxy listens on port 21, the list of
  sessions is well formed, the server that clients will be given is the last one of the file, \<open>global_option\<close> is set, and the
  queue of the thread pool holds exactly one job, \<open>main_loop\<close> with the options as its argument.\<close>

theorem main_starts:
  assumes "boot_granted s k e (ms @ rs) (True # bs)" "\<forall>x \<in> set ss. server_ok x" "ss \<noteq> []"
    and "length ms = length ss" "\<forall>m \<in> set ms. rv (m Malloc) \<noteq> 0" "a = brk (wd (prc s))"
  shows "\<exists>s' d pl q j. main_start (Some c) True True [argv0] (Some (config_text ss)) s = Inr (Some (Ref a), s') \<and>
    log_file (logs s') = Some c \<and> goption (wd (prc s')) = Some d \<and> loop_queued (prc s') a d pl q j \<and>
    (\<exists>sh. opt_session_list d = Ref sh \<and> lists_ok sh (wd (prc s'))) \<and>
    opt_epoll_fd d = e \<and> open_fds (wd (prc s')) = {k, e} \<union> open_fds (wd (prc s)) \<and> Listen k 0 \<in> set (trace (wd (prc s'))) \<and>
    (\<exists>x. server_get_available_address (opt_server_list d) (wd (prc s')) = Inr x \<and>
       load_saddr x (wd (prc s')) = Inr (listed (last ss)))"
proof -
  obtain om calls where boot: "script (wd (prc s)) = om # calls @ ms @ rs" "rv (om Malloc) \<noteq> 0"
    "start_granted (wd (prc s)) k e calls" and mal: "mallocs (td (prc s)) = replicate (4 + 10) True @ True # bs"
    and closed: "log_file (logs s) = None"
    using assms(1) by (auto simp: boot_granted_def)
  obtain l' where l': "log_init (Some c) True True (logs s) = (LOG_INIT_SUCCESS, l')" "log_file l' = Some c"
    using log_opens [OF closed] by blast
  obtain p1 pl q where p1: "option_create (int 10) (prc s) = Inr (Ref a, p1)" "popts p1 = (popts (prc s))(a \<mapsto> ready_option a pl e)"
    "ring (links (wd p1)) (a + 1) []" "ring (links (wd p1)) (a + 2) []" "open_fds (wd p1) = {k, e} \<union> open_fds (wd (prc s))" "Listen k 0 \<in> set (trace (wd p1))"
    "script (wd p1) = ms @ rs" "brk (wd p1) = a + 4" "threads_ok pl q 10 10 (td p1)" "queue_ok q (td p1) []" "mallocs (td p1) = True # bs"
    using option_create_run [OF boot mal assms(6)] by blast
  let ?d = "ready_option a pl e"
  have d: "popts p1 a = Some ?d" "opt_server_list ?d = Ref (a + 1)" "opt_thread_pool ?d = Ref pl" "opt_epoll_fd ?d = e"
    "opt_session_list ?d = Ref (a + 2)"
    by (simp_all add: p1(2) ready_option_def)
  obtain w2 x where w2: "get_option_from_file (Ref a) (Some (config_text ss)) p1 = Inr (True, p1\<lparr>wd := w2\<rparr>)"
    "read_options (popts p1) (Ref a) (config_text ss) (wd p1) = Inr (True, w2)"
    "server_get_available_address (Ref (a + 1)) w2 = Inr x" "load_saddr x w2 = Inr (listed (last ss))"
    "brk w2 = a + 4 + length ss" "links w2 (a + 2) = links (wd p1) (a + 2)"
    using good_config [OF assms(2,3) d(1,2) p1(7) assms(4,5) p1(3)] by (auto simp: p1(8))
  have "lists_only (wd p1) w2" using read_options_lists_only [of "popts p1" "Ref a" "config_text ss" "wd p1"] w2(2) by simp
  then have same: "open_fds w2 = open_fds (wd p1)" "Listen k 0 \<in> set (trace w2)" using p1(6) by (auto simp: lists_only_def)
  obtain m3 y where m3: "thread_pool_add_work (Ref pl) main_loop_ptr (Ref a) (td p1) = Inr (THREAD_SUCCESS, m3)" "pool_at pl q 0 m3"
    "queue_ok q m3 [tbrk (td p1)]" "queue_sem q m3 = Some 1" "tbrk (td p1) < tbrk m3" "jobs m3 (tbrk (td p1)) = Some y" "jb_function y = main_loop_ptr"
    "jb_arg y = Ref a"
    using add_work_empty [OF p1(10,9,11), of main_loop_ptr "Ref a"] by blast
  let ?s = "\<lparr>prc = p1\<lparr>wd := w2\<lparr>goption := Some ?d\<rparr>, td := m3\<rparr>, logs = l'\<rparr>"
  have run: "main_start (Some c) True True [argv0] (Some (config_text ss)) s = Inr (Some (Ref a), s\<lparr>prc := prc ?s, logs := l'\<rparr>)"
    using d by (simp add: main_start_def l'(1) THREAD_AMOUNT_def p1(1) [simplified] get_options_def no_arguments w2(1) load_opt_def on_td_def m3(1))
  have "loop_queued (prc ?s) a ?d pl q (tbrk (td p1))" using d m3 by (simp add: loop_queued_def)
  moreover have "lists_ok (a + 2) (wd (prc ?s))" unfolding lists_ok_def
    using p1(4) w2(5,6) by (intro exI [of _ "[]"]) (simp add: ring_empty_iff nx_def pv_def)
  ultimately show ?thesis
    using run l'(2) d w2(3,4) same p1(5) by (intro exI conjI) (assumption | simp)+
qed

definition boot_calls :: "(call \<Rightarrow> reply) list" where
  "boot_calls = [answer 1, answer 7, answer 0, answer 0, answer 1, answer 0, answer 0, answer 0, answer 0, answer 0,
     answer 8, answer 0]"

definition boot_program :: "(call \<Rightarrow> reply) list \<Rightarrow> program" where
  "boot_program rs = \<lparr>prc = (demo_proc (answer 1 # boot_calls @ rs))\<lparr>td := demo_tmem\<lparr>mallocs := replicate 15 True\<rparr>\<rparr>,
     logs = \<lparr>log_file = None, log_check = False, log_buffer = None\<rparr>\<rparr>"

lemma boot_program_granted: "boot_granted (boot_program rs) 7 8 rs [True]"
proof -
  have "start_granted (demo (answer 1 # boot_calls @ rs)) 7 8 boot_calls"
    by (simp add: start_granted_def answer_def init_calls_ok_def demo_def boot_def boot_calls_def)
  moreover have "replicate 15 True = replicate (4 + 10) True @ [True]" by (simp add: eval_nat_numeral)
  ultimately show ?thesis
    by (auto simp: boot_granted_def boot_program_def answer_def intro!: exI [of _ "answer 1"] exI [of _ boot_calls])
qed

theorem main_starts_witness:
  "\<exists>s' q j d pl. main_start (Some []) True True [''proxy''] (Some (''server_address 10.0.0.3:21'' @ [LF])) (boot_program [answer 1])
     = Inr (Some (Ref 10), s') \<and> loop_queued (prc s') 10 d pl q j \<and> open_fds (wd (prc s')) = {3, 4, 5, 7, 8}"
proof -
  let ?ss = "[((10, 0, 0, 3), 21)] :: (in_addr \<times> nat) list"
  have file_text: "config_text ?ss = ''server_address 10.0.0.3:21'' @ [LF]"
    by (simp add: server_line_def server_key_def server_text_def dec.simps digit_chars)
  have b: "boot_granted (boot_program [answer 1]) 7 8 ([answer 1] @ []) (True # [])" using boot_program_granted by simp
  have w: "brk (wd (prc (boot_program [answer 1]))) = 10" "open_fds (wd (prc (boot_program [answer 1]))) = {3, 4, 5}"
    by (simp_all add: boot_program_def) (simp add: demo_def boot_def)
  have ss: "\<forall>x \<in> set ?ss. server_ok x" "?ss \<noteq> []" "length [answer 1] = length ?ss" "\<forall>m \<in> set [answer 1]. rv (m Malloc) \<noteq> 0"
    by (simp_all add: server_ok_def INADDR_NONE_def answer_def)
  from main_starts [OF b ss refl, of "[]" "''proxy''"] show ?thesis
    unfolding file_text w by (force simp: w)
qed

subsection \<open>A start that is refused\<close>

text \<open>An argument, no configuration file, or one that begins with an empty line.\<close>

definition refused :: "char list list \<Rightarrow> string option \<Rightarrow> bool" where
  "refused argv file \<longleftrightarrow>
     (case get_option_from_argument argv of Inl _ \<Rightarrow> False
      | Inr r \<Rightarrow> r \<noteq> ARGUMENT_NOT_FOUND \<or> file = None \<or> (\<exists>l. file = Some (LF # l)))"

lemma refused_run:
  assumes "refused argv file"
  shows "\<exists>r. get_options dst argv file p = Inr (r, p) \<and> r \<noteq> OPTION_GET_SUCCESS"
proof -
  obtain r where r: "get_option_from_argument argv = Inr r"
    "r \<noteq> ARGUMENT_NOT_FOUND \<or> file = None \<or> (\<exists>l. file = Some (LF # l))"
    using assms by (auto simp: refused_def split: sum.splits)
  have "get_option_from_file dst (Some (LF # l)) p = Inr (False, p)" for l
  proof -
    have f: "fgets 4096 (LF # l) = Some ([LF], l)" using fgets_LF [of "[]" 4096 l] by simp
    have k: "\<not> key_char LF" by (simp add: key_char_def schar_def code_def)
    show ?thesis using bad_line [OF f, of "[]" "[]" LF "[NUL]" dst p] k
      by (simp add: MAX_CONFIG_KEY_LENGTH_def server_key_def)
  qed
  with r show ?thesis by (auto simp: get_options_def get_option_from_file_def)
qed



end
