(* ===== verification/Spec2Isabelle.thy ===== *)
theory Spec2Isabelle
  imports Program
begin

text \<open>
  A verification development for \<open>ftp-proxy\<close>, an FTP proxy in C (\<open>src/ftp-proxy\<close>).

  The program. A client connects to the proxy on port 21; the proxy connects to an FTP server of its
  configuration file and relays commands, replies and data between the two. A \<open>PORT\<close> command of the
  client is not relayed as it is: the proxy connects to the client's data port itself, listens on a
  port of its own and sends the server a \<open>PORT\<close> command with that. \<open>main\<close> sets up the options (server
  list, session list, thread pool, proxy socket, epoll descriptor) and hands the event loop to
  the thread pool as its only job; the event loop takes events from epoll and calls the handlers of
  \<open>session.c\<close>, \<open>client.c\<close> and \<open>server.c\<close>. Bytes that were read are queued in the buffer of the
  socket of the other side (\<open>session_buffer_write\<close>) and written when epoll says that the socket
  takes them.

  The theories, in the order in which they build on each other, and the files they model:

    \<^item> \<open>Prelude\<close>: the result type of all model functions, its sequencing and the two postcondition predicates
      \<open>ends\<close> and \<open>gives\<close>; C pointers; conversions.
    \<^item> \<open>CStrings\<close>: the functions of the C library on strings that the sources call, over byte lists, with reads
      past the end of an object as outcomes.
    \<^item> \<open>RingList\<close>: \<open>include/list.h\<close>, every list macro on an explicit heap of nodes.
    \<^item> \<open>World\<close>: the structures of \<open>include/*.h\<close> as records, one map of live objects for each, and the system
      calls. What the kernel answers is a script, a list of functions from calls to replies.
    \<^item> \<open>Packet\<close>: \<open>src/packet.c\<close>. \<open>Inet\<close>: the address conversions of the C library. \<open>Utils\<close>: \<open>src/utils.c\<close>.
    \<^item> \<open>Sockets\<close>: \<open>src/socket.c\<close> and \<open>session_buffer_write\<close>. \<open>Client\<close>: \<open>src/client.c\<close>. \<open>Server\<close>: \<open>src/server.c\<close>.
    \<^item> \<open>Session\<close>: \<open>src/session.c\<close> and the two handlers of \<open>client.c\<close> that act on a session.
    \<^item> \<open>JobQueue\<close>, \<open>Pool\<close>: \<open>src/thread.c\<close>, the job queue with its semaphore and the pool with its workers;
      \<open>OneJob\<close>: a pool with one job, which is how \<open>main\<close> uses it.
    \<^item> \<open>Config\<close>: \<open>src/option.c\<close>. \<open>LogFile\<close>: \<open>src/log.c\<close>.
    \<^item> \<open>Progress\<close>: one lemma per operation of the proxy on what no operation undoes, with the third postcondition
      predicate \<open>tame\<close> (no fuel runs out). \<open>SessionList\<close>: the list of sessions stays a list.
    \<^item> \<open>MainLoop\<close>, \<open>Program\<close>: \<open>src/main.c\<close>, the event loop, and start-up, workers and end composed.

  Names are those of the sources. A structure is a record; a field that the sources do not use is left out.
  An enum is a datatype. A function of the sources is a definition that takes the state and returns its result
  with the new state; every store, call and early return is in it, in the order of the code. Pointers
  are \<open>Null\<close>, \<open>Ref\<close> of an address or \<open>Wild\<close> (indeterminate); following one that does not
  point to a live object is the outcome \<open>UB\<close>, as are double frees, reads of indeterminate memory and
  accesses out of bounds. Allocation may fail whenever the script says so. A C loop is a recursive function
  with a termination proof; each retry of a system call uses one answer of the script.

  What the lemmas show. In each component theory: the invariant of the structure (\<open>ring\<close>, \<open>queue_ok\<close>,
  \<open>session_ok\<close>, \<open>lists_ok\<close>, \<open>pool_inv\<close>, \<open>log_ok\<close>, \<open>set_up\<close>), one lemma per operation with the exact result on
  the successful path (\<open>..._run\<close>, \<open>..._ok\<close>), postconditions for all answers of the system (\<open>..._gives\<close>,
  \<open>..._ends\<close>, \<open>..._still\<close>, \<open>..._later\<close>, \<open>..._kept\<close>), then the properties, each with a concrete instance (\<open>..._witness\<close>).
  Abstract specifications: a ring of list nodes is a list of addresses; the job queue is a first-in first-out
  queue (locale \<open>fifo\<close>, interpreted on the model); \<open>port_command_spec\<close> says what a \<open>PORT\<close> command is
  and the scanner decides it; finding a session is the library's \<open>find\<close> on the list of sessions; the
  thread pool is a transition system over the program counters of its workers, in which any worker
  may move next.

  Fuel. Only the loops over linked lists have it: the number of addresses ever given out plus one, which is more
  than a well-formed ring can have nodes. \<open>main_loop_session_list\<close> shows that the event loop keeps the list of
  sessions well formed and so never has the outcome \<open>Out_of_fuel\<close>; \<open>main_starts\<close> that it begins that way.

  Not modelled: the messages printed by \<open>proxy_error\<close>, \<open>printf\<close> and \<open>print_help\<close>; the names of threads; the
  structures and macros of \<open>list.h\<close> that nothing uses (\<open>bref\<close>, the word lists, the static
  initialisers); \<open>add_server_to_option\<close> and \<open>packet_from_type\<close>, declared and used nowhere. A function that runs
  under a mutex from beginning to end is one step. Signals are visible as \<open>EINTR\<close> only.
\<close>

end
